theory Spec2Isabelle
  imports Complex_Main "HOL-Library.AList" "HOL-Library.Multiset" "HOL-Library.Log_Nat"
begin

section \<open>Load-generation engine of API-Stress-Lab (load\_test.py)\<close>

text \<open>
  A finite Python float is a rational (\<^typ>\<open>rat\<close>). The aggregation and the first model
  of \<open>percentile\<close> compute with exact operations. Where rounding or the special values
  decide what the code does, the arithmetic is explicit: \<open>percentile_float\<close> computes on
  \<open>pyfloat\<close> with a rounding function, and the running average of the progress events
  goes through the \<open>float_arith\<close> of the configuration. Python ints are \<^typ>\<open>int\<close>.
  Exceptions are values of \<open>error + 'a\<close>.
\<close>

datatype error = IndexError | ValueError | OverflowError | CallbackError

subsection \<open>Python primitives used by the engine\<close>

text \<open>\<^verbatim>\<open>int(k)\<close> on a float truncates towards zero.\<close>

definition py_int :: "rat \<Rightarrow> int" where
  "py_int k = (if 0 \<le> k then \<lfloor>k\<rfloor> else \<lceil>k\<rceil>)"

text \<open>
  \<^verbatim>\<open>xs[i]\<close>: an index in \<open>[-n, n)\<close> is accepted, a negative one counts from the
  end, anything else raises IndexError.
\<close>

definition getitem :: "'a list \<Rightarrow> int \<Rightarrow> error + 'a" where
  "getitem xs i =
     (if 0 \<le> i \<and> i < int (length xs) then Inr (xs ! nat i)
      else if - int (length xs) \<le> i \<and> i < 0 then Inr (xs ! nat (int (length xs) + i))
      else Inl IndexError)"

text \<open>
  The decimal rounding of \<^verbatim>\<open>round(x, 2)\<close>: the multiple of 1/100 nearest to the exact
  value of \<open>x\<close>, a tie going to the even one. (The float returned is the double nearest
  to it, see \<open>double_arith\<close>.)
\<close>

definition round_half_even :: "rat \<Rightarrow> int" where
  "round_half_even x =
     (let fl = \<lfloor>x\<rfloor>; d = x - of_int fl
      in if d < 1 / 2 then fl
         else if 1 / 2 < d then fl + 1
         else if even fl then fl else fl + 1)"

definition py_round2 :: "rat \<Rightarrow> rat" where
  "py_round2 x = of_int (round_half_even (x * 100)) / 100"

text \<open>
  \<^verbatim>\<open>dict(Counter(xs))\<close>: each element bumps its count; a key keeps the position of its
  first occurrence.
\<close>

definition counter :: "'a list \<Rightarrow> ('a \<times> nat) list" where
  "counter xs =
     fold (\<lambda>x al. AList.update x (case map_of al x of None \<Rightarrow> 1 | Some n \<Rightarrow> n + 1) al) xs []"

subsection \<open>percentile (load\_test.py, lines 10--21)\<close>

text \<open>
  The function on finite floats with exact operations. \<open>percentile_float\<close> below has
  the rounding of each operation and the special values; the two agree when nothing is
  rounded (lemma \<open>percentile_float_exact\<close>).
\<close>

definition percentile :: "rat list \<Rightarrow> rat \<Rightarrow> error + rat" where
  "percentile latencies p =
     (if latencies = [] then Inr 0
      else
        let latencies_sorted = sort latencies;
            k = of_int (int (length latencies_sorted) - 1) * (p / 100);
            f = py_int k;
            c = min (f + 1) (int (length latencies_sorted) - 1)
        in if f = c then getitem latencies_sorted f
           else
             (case getitem latencies_sorted f of
                Inl e \<Rightarrow> Inl e
              | Inr a \<Rightarrow>
                 (case getitem latencies_sorted c of
                    Inl e \<Rightarrow> Inl e
                  | Inr b \<Rightarrow> Inr (a * (of_int c - k) + b * (k - of_int f)))))"

text \<open>
  The percentile of the specification, word for word: rank \<open>k = (n-1) * (p/100)\<close>,
  \<open>f = floor k\<close>, \<open>c = min (f+1) (n-1)\<close>, the order statistic at \<open>f\<close> when
  \<open>f = c\<close> and the linear interpolation otherwise.
\<close>

definition spec_rank :: "rat list \<Rightarrow> rat \<Rightarrow> rat" where
  "spec_rank latencies p = of_nat (length latencies - 1) * (p / 100)"

definition percentile_spec :: "rat list \<Rightarrow> rat \<Rightarrow> rat" where
  "percentile_spec latencies p =
     (if latencies = [] then 0
      else
        let s = sort latencies;
            k = spec_rank latencies p;
            f = nat \<lfloor>k\<rfloor>;
            c = min (f + 1) (length latencies - 1)
        in if f = c then s ! f
           else s ! f * (of_nat c - k) + s ! c * (k - of_nat f))"

subsection \<open>Floats: rounding and special values\<close>

text \<open>
  Binary64, round to nearest, ties to even: \<open>to_double x\<close> is the double nearest to the
  rational \<open>x\<close> (53 significant bits, exponent at least \<open>-1022\<close>).
\<close>

definition pow2 :: "int \<Rightarrow> rat" where
  "pow2 e = (if 0 \<le> e then 2 ^ nat e else 1 / 2 ^ nat (- e))"

definition exponent2 :: "rat \<Rightarrow> int" where
  "exponent2 x =
     (let e = bitlen (fst (quotient_of \<bar>x\<bar>)) - bitlen (snd (quotient_of \<bar>x\<bar>))
      in if pow2 e \<le> \<bar>x\<bar> then e else e - 1)"

definition to_double :: "rat \<Rightarrow> rat" where
  "to_double x =
     (if x = 0 then 0
      else let q = pow2 (max (exponent2 x) (- 1022) - 52)
           in of_int (round_half_even (x / q)) * q)"

text \<open>A float: a finite value, an infinity, or not a number.\<close>

datatype pyfloat = Fin rat | PosInf | NegInf | NaN

text \<open>The float of an exact result: the nearest double, an infinity on overflow.\<close>

definition to_float :: "rat \<Rightarrow> pyfloat" where
  "to_float x =
     (let y = to_double x
      in if pow2 1024 \<le> \<bar>y\<bar> then (if 0 < y then PosInf else NegInf) else Fin y)"

text \<open>
  The operations of lines 14--21 on floats. \<open>rnd\<close> turns the exact result of an
  operation on finite operands into a float; the theorems hold for every \<open>rnd\<close>, the
  examples use \<open>to_float\<close>.
\<close>

definition inf_of_sign :: "rat \<Rightarrow> pyfloat" where
  "inf_of_sign x = (if x = 0 then NaN else if 0 < x then PosInf else NegInf)"

fun fl_neg :: "pyfloat \<Rightarrow> pyfloat" where
  "fl_neg (Fin x) = Fin (- x)"
| "fl_neg PosInf = NegInf"
| "fl_neg NegInf = PosInf"
| "fl_neg NaN = NaN"

fun fl_add :: "(rat \<Rightarrow> pyfloat) \<Rightarrow> pyfloat \<Rightarrow> pyfloat \<Rightarrow> pyfloat" where
  "fl_add rnd (Fin x) (Fin y) = rnd (x + y)"
| "fl_add rnd NaN b = NaN"
| "fl_add rnd a NaN = NaN"
| "fl_add rnd PosInf NegInf = NaN"
| "fl_add rnd NegInf PosInf = NaN"
| "fl_add rnd PosInf b = PosInf"
| "fl_add rnd a PosInf = PosInf"
| "fl_add rnd NegInf b = NegInf"
| "fl_add rnd a NegInf = NegInf"

definition fl_sub :: "(rat \<Rightarrow> pyfloat) \<Rightarrow> pyfloat \<Rightarrow> pyfloat \<Rightarrow> pyfloat" where
  "fl_sub rnd a b = fl_add rnd a (fl_neg b)"

fun fl_mul :: "(rat \<Rightarrow> pyfloat) \<Rightarrow> pyfloat \<Rightarrow> pyfloat \<Rightarrow> pyfloat" where
  "fl_mul rnd (Fin x) (Fin y) = rnd (x * y)"
| "fl_mul rnd NaN b = NaN"
| "fl_mul rnd a NaN = NaN"
| "fl_mul rnd (Fin x) PosInf = inf_of_sign x"
| "fl_mul rnd (Fin x) NegInf = inf_of_sign (- x)"
| "fl_mul rnd PosInf (Fin y) = inf_of_sign y"
| "fl_mul rnd NegInf (Fin y) = inf_of_sign (- y)"
| "fl_mul rnd PosInf PosInf = PosInf"
| "fl_mul rnd PosInf NegInf = NegInf"
| "fl_mul rnd NegInf PosInf = NegInf"
| "fl_mul rnd NegInf NegInf = PosInf"

text \<open>\<^verbatim>\<open>p / 100\<close>.\<close>

fun fl_div100 :: "(rat \<Rightarrow> pyfloat) \<Rightarrow> pyfloat \<Rightarrow> pyfloat" where
  "fl_div100 rnd (Fin x) = rnd (x / 100)"
| "fl_div100 rnd a = a"

text \<open>
  \<^verbatim>\<open>int(k)\<close>: OverflowError for an infinity, ValueError for a NaN. \<^verbatim>\<open>k >= n\<close>.
\<close>

fun py_int_float :: "pyfloat \<Rightarrow> error + int" where
  "py_int_float (Fin x) = Inr (py_int x)"
| "py_int_float NaN = Inl ValueError"
| "py_int_float a = Inl OverflowError"

fun fl_ge_int :: "pyfloat \<Rightarrow> int \<Rightarrow> bool" where
  "fl_ge_int (Fin x) n = (of_int n \<le> x)"
| "fl_ge_int PosInf n = True"
| "fl_ge_int a n = False"

subsection \<open>percentile on floats (load\_test.py, lines 10--21)\<close>

text \<open>Line 14, for a list of \<open>n\<close> latencies: \<^verbatim>\<open>k = (n - 1) * (p / 100)\<close>.\<close>

definition rank :: "(rat \<Rightarrow> pyfloat) \<Rightarrow> nat \<Rightarrow> pyfloat \<Rightarrow> pyfloat" where
  "rank rnd n p = fl_mul rnd (Fin (of_int (int n - 1))) (fl_div100 rnd p)"

definition percentile_float :: "(rat \<Rightarrow> pyfloat) \<Rightarrow> rat list \<Rightarrow> pyfloat \<Rightarrow> error + pyfloat" where
  "percentile_float rnd latencies p =
     (if latencies = [] then Inr (Fin 0)
      else
        let latencies_sorted = sort latencies;
            k = rank rnd (length latencies_sorted) p
        in case py_int_float k of
             Inl e \<Rightarrow> Inl e
           | Inr f \<Rightarrow>
              (let c = min (f + 1) (int (length latencies_sorted) - 1)
               in if f = c then map_sum id Fin (getitem latencies_sorted f)
                  else
                    (case getitem latencies_sorted f of
                       Inl e \<Rightarrow> Inl e
                     | Inr a \<Rightarrow>
                        (let d0 = fl_mul rnd (Fin a) (fl_sub rnd (Fin (of_int c)) k)
                         in case getitem latencies_sorted c of
                              Inl e \<Rightarrow> Inl e
                            | Inr b \<Rightarrow>
                               (let d1 = fl_mul rnd (Fin b) (fl_sub rnd k (Fin (of_int f)))
                                in Inr (fl_add rnd d0 d1))))))"

subsection \<open>Data of a run\<close>

text \<open>
  An entry of \<^verbatim>\<open>results\<close> is the tuple \<^verbatim>\<open>(elapsed_ms, status_code, is_transport_error)\<close>.
\<close>

record outcome =
  latency_ms :: rat
  status_code :: "int option"
  is_transport_error :: bool

text \<open>
  A timeseries entry, and the dict handed to the progress callback (the same keys plus
  \<^verbatim>\<open>total\<close>; its constant \<^verbatim>\<open>type\<close> key is left out).
\<close>

record point =
  timestamp :: rat
  completed :: int
  avg_latency_ms :: rat
  errors :: nat

record progress_event = point +
  total :: int

text \<open>
  The \<^verbatim>\<open>metrics\<close> dict; \<open>requests_total\<close> is its key \<^verbatim>\<open>total_requests\<close>, and the
  nested \<^verbatim>\<open>latency_ms\<close> dict is flattened into \<open>lat_avg\<close> \dots \<open>p99\<close>.
\<close>

record summary =
  total_time_seconds :: rat
  requests_total :: nat
  successful_requests :: nat
  failed_requests :: nat
  transport_errors :: nat
  requests_per_second :: rat
  lat_avg :: rat
  lat_min :: rat
  lat_max :: rat
  p50 :: rat
  p90 :: rat
  p95 :: rat
  p99 :: rat
  status_codes :: "(int \<times> nat) list"

record load_test_result =
  result_summary :: summary
  result_timeseries :: "point list"

text \<open>
  The float operations of lines 55--72 and 81: \<^verbatim>\<open>sum(latencies_so_far)\<close>, the division
  of that sum by \<^verbatim>\<open>len(latencies_so_far)\<close>, and \<^verbatim>\<open>round(avg_latency, 2)\<close>. They are
  kept abstract (the way \<^verbatim>\<open>sum\<close> accumulates depends on the interpreter); the theorems
  hold for every such arithmetic.
\<close>

record float_arith =
  fl_sum :: "rat list \<Rightarrow> rat"
  fl_div_int :: "rat \<Rightarrow> nat \<Rightarrow> rat"
  fl_round2 :: "rat \<Rightarrow> rat"

text \<open>
  Binary64 arithmetic: additions from left to right, each rounded; a rounded division;
  \<^verbatim>\<open>round(x, 2)\<close> as the double nearest to the decimal rounding of \<open>x\<close>.
\<close>

definition double_arith :: float_arith where
  "double_arith =
     \<lparr> fl_sum = (\<lambda>xs. foldl (\<lambda>a x. to_double (a + x)) 0 xs),
       fl_div_int = (\<lambda>x n. to_double (x / of_nat n)),
       fl_round2 = (\<lambda>x. to_double (py_round2 x)) \<rparr>"

text \<open>
  The arguments of \<^verbatim>\<open>run_load_test\<close>, and the float arithmetic of the interpreter
  that runs it. \<open>progress_callback\<close> says whether a callback was passed (is not
  \<^verbatim>\<open>None\<close>); what an invocation of it does is an input of the run.
\<close>

record config =
  url :: string
  "method" :: string
  total_requests :: int
  concurrency :: int
  progress_callback :: bool
  arith :: float_arith

subsection \<open>Aggregation (run\_load\_test, lines 124--168)\<close>

definition is_http_failure :: "outcome \<Rightarrow> bool" where
  "is_http_failure r = (case status_code r of None \<Rightarrow> False | Some c \<Rightarrow> 400 \<le> c)"

definition is_success :: "outcome \<Rightarrow> bool" where
  "is_success r = (case status_code r of None \<Rightarrow> False | Some c \<Rightarrow> c < 400)"

definition mean :: "rat list \<Rightarrow> rat" where
  "mean xs = sum_list xs / of_nat (length xs)"

definition metrics :: "outcome list \<Rightarrow> rat \<Rightarrow> error + summary" where
  "metrics results total_time =
     (let latencies = map latency_ms results;
          http_results = filter (\<lambda>r. status_code r \<noteq> None) results;
          transport_errs = filter is_transport_error results;
          codes = map (\<lambda>r. the (status_code r)) http_results;
          successes = filter is_success http_results;
          http_failures = filter is_http_failure http_results;
          total = length results;
          success_count = length successes;
          failure_count = length http_failures + length transport_errs;
          avg_latency = (if latencies \<noteq> [] then mean latencies else 0);
          min_latency = (if latencies \<noteq> [] then Min (set latencies) else 0);
          max_latency = (if latencies \<noteq> [] then Max (set latencies) else 0)
      in case percentile latencies 50 of Inl e \<Rightarrow> Inl e | Inr q50 \<Rightarrow>
         (case percentile latencies 90 of Inl e \<Rightarrow> Inl e | Inr q90 \<Rightarrow>
         (case percentile latencies 95 of Inl e \<Rightarrow> Inl e | Inr q95 \<Rightarrow>
         (case percentile latencies 99 of Inl e \<Rightarrow> Inl e | Inr q99 \<Rightarrow>
            Inr \<lparr> total_time_seconds = total_time,
                  requests_total = total,
                  successful_requests = success_count,
                  failed_requests = failure_count,
                  transport_errors = length transport_errs,
                  requests_per_second = (if 0 < total_time then of_nat total / total_time else 0),
                  lat_avg = avg_latency,
                  lat_min = min_latency,
                  lat_max = max_latency,
                  p50 = q50, p90 = q90, p95 = q95, p99 = q99,
                  status_codes = counter codes \<rparr>))))"

text \<open>
  Scenario C of the specification, as the multiset of (status, transport error) pairs of
  the outcomes: five 200s, three 500s, two timeouts, in any completion order and with
  any latencies; and one run of it.
\<close>

definition scenario_c :: "(int option \<times> bool) multiset" where
  "scenario_c = replicate_mset 5 (Some 200, False) + replicate_mset 3 (Some 500, False)
                 + replicate_mset 2 (None, True)"

definition mixed_run :: "outcome list" where
  "mixed_run =
     (let ok = \<lparr> latency_ms = 5, status_code = Some 200, is_transport_error = False \<rparr>;
          bad = \<lparr> latency_ms = 7, status_code = Some 500, is_transport_error = False \<rparr>;
          lost = \<lparr> latency_ms = 10000, status_code = None, is_transport_error = True \<rparr>
      in [ok, bad, ok, lost, ok, bad, ok, lost, bad, ok])"

subsection \<open>The run as an interleaving of its workers (lines 24--120)\<close>

text \<open>
  The workers are asyncio tasks on one event loop: a task runs alone between two
  \<^verbatim>\<open>await\<close>s. A worker awaits three times: for the semaphore, for
  \<^verbatim>\<open>client.request\<close>, and for \<^verbatim>\<open>progress_callback\<close>. A run is therefore a
  sequence of the events that resume a worker, chosen by the environment:
  \<^item> \<open>Acquire\<close>: a worker that has not started obtains a permit and issues its request;
  \<^item> \<open>Response c\<close>: the request of some worker ends as \<open>c\<close> says, and the worker runs
    lines 42--85 up to the call of the callback;
  \<^item> \<open>CallbackReturns\<close>, \<open>CallbackRaises\<close>: a pending callback invocation ends.
  The workers are interchangeable, so the state counts them.
\<close>

datatype reply = Status int | NoResponse

text \<open>
  What the environment decides when a request ends: the reply (\<open>NoResponse\<close> is any
  exception of \<^verbatim>\<open>client.request\<close>), the measured \<^verbatim>\<open>elapsed_ms\<close>, and the two
  readings of \<^verbatim>\<open>time.time()\<close> (line 67 and line 83).
\<close>

record completion =
  reply :: reply
  elapsed_ms :: rat
  now :: rat
  sent_at :: rat

datatype action = Acquire | Response completion | CallbackReturns | CallbackRaises

record run_state =
  results :: "outcome list"
  state_completed :: int
  timeseries :: "point list"
  sem_value :: nat
  not_started :: nat
  in_request :: nat
  in_callback :: nat
  requests_issued :: nat
  delivered :: "progress_event list"
  raised :: "error option"

text \<open>Lines 37--49: the outcome recorded for a request, by its reply.\<close>

definition outcome_of :: "completion \<Rightarrow> outcome" where
  "outcome_of c =
     (case reply c of
        Status code \<Rightarrow>
          \<lparr> latency_ms = elapsed_ms c, status_code = Some code, is_transport_error = False \<rparr>
      | NoResponse \<Rightarrow>
          \<lparr> latency_ms = elapsed_ms c, status_code = None, is_transport_error = True \<rparr>)"

text \<open>Lines 49--52: append the outcome, bump the counter.\<close>

definition record_outcome :: "completion \<Rightarrow> run_state \<Rightarrow> run_state" where
  "record_outcome c s =
     s \<lparr> results := results s @ [outcome_of c], state_completed := state_completed s + 1 \<rparr>"

text \<open>Lines 61--65: \<^verbatim>\<open>sum(xs) / len(xs) if xs else 0.0\<close>.\<close>

definition running_average :: "float_arith \<Rightarrow> rat list \<Rightarrow> rat" where
  "running_average ar xs = (if xs \<noteq> [] then fl_div_int ar (fl_sum ar xs) (length xs) else 0)"

text \<open>
  Lines 55--85, the body of \<^verbatim>\<open>if progress_callback is not None\<close>: the running
  statistics, the sampling of the timeseries, and the event passed to the callback.
\<close>

definition report_progress :: "config \<Rightarrow> completion \<Rightarrow> run_state \<Rightarrow> run_state" where
  "report_progress cfg c s =
     (let latencies_so_far = map latency_ms (results s);
          http_errors_so_far = length (filter is_http_failure (results s));
          avg_latency = running_average (arith cfg) latencies_so_far;
          ts = (if timeseries s = [] \<or> 1 / 2 \<le> now c - timestamp (last (timeseries s))
                then timeseries s @
                       [\<lparr> timestamp = now c, completed = state_completed s,
                          avg_latency_ms = fl_round2 (arith cfg) avg_latency, errors = http_errors_so_far \<rparr>]
                else timeseries s);
          ev = \<lparr> timestamp = sent_at c, completed = state_completed s,
                 avg_latency_ms = fl_round2 (arith cfg) avg_latency, errors = http_errors_so_far,
                 total = total_requests cfg \<rparr>
      in s \<lparr> timeseries := ts, delivered := delivered s @ [ev] \<rparr>)"

text \<open>
  One event of the run; \<open>None\<close> when the event cannot happen in this state. A permit is
  held from \<open>Acquire\<close> until the worker leaves \<^verbatim>\<open>async with semaphore\<close>: after the
  response when there is no callback, after the callback otherwise. An exception of the
  callback leaves the worker, and \<^verbatim>\<open>gather\<close> raises the first one in
  \<^verbatim>\<open>run_load_test\<close> (\<open>raised\<close>). \<^verbatim>\<open>gather\<close> cancels nothing: the other workers go
  on acquiring, issuing, recording and reporting. (When the caller then closes the
  event loop, the pending workers are cancelled: the run has no further events.)
\<close>

fun step :: "config \<Rightarrow> action \<Rightarrow> run_state \<Rightarrow> run_state option" where
  "step cfg Acquire s =
     (if 0 < not_started s \<and> 0 < sem_value s
      then Some (s \<lparr> sem_value := sem_value s - 1, not_started := not_started s - 1,
                     in_request := in_request s + 1,
                     requests_issued := requests_issued s + 1 \<rparr>)
      else None)"
| "step cfg (Response c) s =
     (if 0 < in_request s
      then let s1 = record_outcome c (s \<lparr> in_request := in_request s - 1 \<rparr>)
           in if progress_callback cfg
              then Some ((report_progress cfg c s1) \<lparr> in_callback := in_callback s1 + 1 \<rparr>)
              else Some (s1 \<lparr> sem_value := sem_value s1 + 1 \<rparr>)
      else None)"
| "step cfg CallbackReturns s =
     (if 0 < in_callback s
      then Some (s \<lparr> in_callback := in_callback s - 1, sem_value := sem_value s + 1 \<rparr>)
      else None)"
| "step cfg CallbackRaises s =
     (if 0 < in_callback s
      then Some (s \<lparr> in_callback := in_callback s - 1, sem_value := sem_value s + 1,
                     raised := (case raised s of
                                  None \<Rightarrow> Some CallbackError
                                | Some e \<Rightarrow> Some e) \<rparr>)
      else None)"

fun exec :: "config \<Rightarrow> action list \<Rightarrow> run_state \<Rightarrow> run_state option" where
  "exec cfg [] s = Some s"
| "exec cfg (a # as) s = (case step cfg a s of None \<Rightarrow> None | Some s' \<Rightarrow> exec cfg as s')"

text \<open>
  Lines 94--119: a semaphore of \<open>concurrency\<close> permits, empty collections, and one worker
  per element of \<^verbatim>\<open>range(total_requests)\<close>.
\<close>

definition init_state :: "config \<Rightarrow> run_state" where
  "init_state cfg =
     \<lparr> results = [], state_completed = 0, timeseries = [],
       sem_value = nat (concurrency cfg), not_started = nat (total_requests cfg),
       in_request = 0, in_callback = 0, requests_issued = 0, delivered = [],
       raised = None \<rparr>"

text \<open>\<^verbatim>\<open>gather\<close> returns when every worker has finished.\<close>

definition all_done :: "run_state \<Rightarrow> bool" where
  "all_done s = (not_started s = 0 \<and> in_request s = 0 \<and> in_callback s = 0)"

text \<open>
  \<^verbatim>\<open>run_load_test\<close> when the events of its workers are those of the schedule, with
  the measured \<^verbatim>\<open>total_time\<close>. \<^verbatim>\<open>asyncio.Semaphore\<close> raises ValueError for a negative
  value. An exception of a callback is raised, whatever the other workers do. \<open>None\<close>:
  the schedule is not a run of this configuration, or stops before \<^verbatim>\<open>gather\<close> is over
  (a run that is never resumed does not return).
\<close>

definition run_load_test :: "config \<Rightarrow> action list \<Rightarrow> rat \<Rightarrow> (error + load_test_result) option" where
  "run_load_test cfg schedule total_time =
     (if concurrency cfg < 0 then Some (Inl ValueError)
      else
        (case exec cfg schedule (init_state cfg) of
           None \<Rightarrow> None
         | Some s \<Rightarrow>
            (case raised s of
               Some e \<Rightarrow> Some (Inl e)
             | None \<Rightarrow>
                if all_done s
                then Some (case metrics (results s) total_time of
                             Inl e \<Rightarrow> Inl e
                           | Inr m \<Rightarrow> Inr \<lparr> result_summary = m, result_timeseries = timeseries s \<rparr>)
                else None)))"

subsection \<open>Example runs\<close>

text \<open>
  Three requests through two permits, with a callback: a 200, then a 500 completing
  0.2 s later, then a timeout.
\<close>

definition demo_config :: config where
  "demo_config = \<lparr> url = ''http://localhost:8000/health'', method = ''GET'',
                    total_requests = 3, concurrency = 2, progress_callback = True,
                    arith = double_arith \<rparr>"

definition demo_schedule :: "action list" where
  "demo_schedule =
     [Acquire, Acquire,
      Response \<lparr> reply = Status 200, elapsed_ms = 5, now = 100, sent_at = 100 \<rparr>,
      CallbackReturns,
      Acquire,
      Response \<lparr> reply = Status 500, elapsed_ms = 7, now = 1002 / 10, sent_at = 1002 / 10 \<rparr>,
      Response \<lparr> reply = NoResponse, elapsed_ms = 10000, now = 110, sent_at = 110 \<rparr>,
      CallbackReturns, CallbackReturns]"

text \<open>
  The same requests when the first invocation of the callback raises: the permit of
  the failing worker is taken by the third worker, which issues its request.
\<close>

definition failing_schedule :: "action list" where
  "failing_schedule =
     [Acquire, Acquire,
      Response \<lparr> reply = Status 200, elapsed_ms = 5, now = 100, sent_at = 100 \<rparr>,
      CallbackRaises,
      Acquire]"

text \<open>One request that takes 12.34375 ms, with a callback that returns, or raises.\<close>

definition single_config :: config where
  "single_config = \<lparr> url = ''http://localhost:8000/health'', method = ''GET'',
                      total_requests = 1, concurrency = 1, progress_callback = True,
                    arith = double_arith \<rparr>"

definition single_schedule :: "action list" where
  "single_schedule =
     [Acquire,
      Response \<lparr> reply = Status 200, elapsed_ms = 395 / 32, now = 100, sent_at = 100 \<rparr>,
      CallbackReturns]"

definition single_failing_schedule :: "action list" where
  "single_failing_schedule =
     [Acquire,
      Response \<lparr> reply = Status 200, elapsed_ms = 395 / 32, now = 100, sent_at = 100 \<rparr>,
      CallbackRaises]"

text \<open>
  Five requests, one at a time, of 12, 12.5, 11.75, 12.25 and 11.875 ms: the float
  average of the five is just below 12.075.
\<close>

definition averaging_config :: config where
  "averaging_config = \<lparr> url = ''http://localhost:8000/health'', method = ''GET'',
                         total_requests = 5, concurrency = 1, progress_callback = True,
                         arith = double_arith \<rparr>"

definition averaging_schedule :: "action list" where
  "averaging_schedule =
     concat (map (\<lambda>e. [Acquire,
                         Response \<lparr> reply = Status 200, elapsed_ms = e, now = 100, sent_at = 100 \<rparr>,
                         CallbackReturns])
                 [12, 25 / 2, 47 / 4, 49 / 4, 95 / 8])"

text \<open>One request without a callback; and one with a method and a URL that are none.\<close>

definition quiet_config :: config where
  "quiet_config = \<lparr> url = ''http://localhost:8000/health'', method = ''GET'',
                     total_requests = 1, concurrency = 1, progress_callback = False,
                    arith = double_arith \<rparr>"

definition unchecked_config :: config where
  "unchecked_config = \<lparr> url = ''not a url'', method = ''FOO'',
                         total_requests = 1, concurrency = 1, progress_callback = False,
                    arith = double_arith \<rparr>"

definition quiet_schedule :: "action list" where
  "quiet_schedule =
     [Acquire, Response \<lparr> reply = Status 200, elapsed_ms = 5, now = 100, sent_at = 100 \<rparr>]"

text \<open>The request of \<open>unchecked_config\<close> is issued and fails in the client.\<close>

definition unchecked_schedule :: "action list" where
  "unchecked_schedule =
     [Acquire, Response \<lparr> reply = NoResponse, elapsed_ms = 1, now = 100, sent_at = 100 \<rparr>]"

subsection \<open>Validation of a request (api\_main.py, LoadTestRequest)\<close>

text \<open>
  The only validation of a configuration in the repository: the request model of the
  REST endpoint. \<open>http_url\<close> stands for pydantic's \<^verbatim>\<open>HttpUrl\<close> check.
\<close>

definition allowed_methods :: "string list" where
  "allowed_methods = [''GET'', ''POST'', ''PUT'', ''DELETE'', ''PATCH'', ''HEAD'', ''OPTIONS'']"

definition load_test_request_valid :: "(string \<Rightarrow> bool) \<Rightarrow> config \<Rightarrow> bool" where
  "load_test_request_valid http_url cfg =
     (http_url (url cfg) \<and> method cfg \<in> set allowed_methods
      \<and> 1 \<le> total_requests cfg \<and> total_requests cfg \<le> 1000
      \<and> 1 \<le> concurrency cfg \<and> concurrency cfg \<le> 200)"

text \<open>The most permissive URL check.\<close>

definition accept_any_url :: "string \<Rightarrow> bool" where
  "accept_any_url u = True"

subsection \<open>Facts about the primitives\<close>

lemma py_int_nonneg: "0 \<le> k \<Longrightarrow> py_int k = \<lfloor>k\<rfloor>"
  by (simp add: py_int_def)

lemma getitem_in_range:
  "0 \<le> i \<Longrightarrow> i < int (length xs) \<Longrightarrow> getitem xs i = Inr (xs ! nat i)"
  by (simp add: getitem_def)

lemma getitem_too_large:
  "int (length xs) \<le> i \<Longrightarrow> getitem xs i = Inl IndexError"
  by (simp add: getitem_def)

subsection \<open>percentile: agreement with the specified interpolation\<close>

lemma percentile_cases:
  assumes "latencies \<noteq> []"
      and "k = of_int (int (length latencies) - 1) * (p / 100)"
      and "f = py_int k"
      and "c = min (f + 1) (int (length latencies) - 1)"
  shows "percentile latencies p =
     (if f = c then getitem (sort latencies) f
      else (case getitem (sort latencies) f of
              Inl e \<Rightarrow> Inl e
            | Inr a \<Rightarrow>
               (case getitem (sort latencies) c of
                  Inl e \<Rightarrow> Inl e
                | Inr b \<Rightarrow> Inr (a * (of_int c - k) + b * (k - of_int f)))))"
  unfolding percentile_def Let_def assms(4) assms(3) assms(2) length_sort
  by (simp only: assms(1) if_False)

lemma percentile_spec_cases:
  assumes "latencies \<noteq> []"
      and "k = spec_rank latencies p"
      and "f = nat \<lfloor>k\<rfloor>"
      and "c = min (f + 1) (length latencies - 1)"
  shows "percentile_spec latencies p =
     (if f = c then sort latencies ! f
      else sort latencies ! f * (of_nat c - k) + sort latencies ! c * (k - of_nat f))"
  unfolding percentile_spec_def Let_def assms(4) assms(3) assms(2)
  by (simp only: assms(1) if_False)

lemma spec_rank_int:
  "latencies \<noteq> [] \<Longrightarrow> spec_rank latencies p = of_int (int (length latencies) - 1) * (p / 100)"
  by (cases latencies) (simp_all add: spec_rank_def)

lemma rank_bounds:
  assumes "0 \<le> p" "p \<le> 100" "0 \<le> (m::int)"
  shows "0 \<le> of_int m * (p / 100)" "of_int m * (p / 100) \<le> (of_int m :: rat)"
proof -
  have "0 \<le> p / 100" using assms by simp
  then show "0 \<le> of_int m * (p / 100)" using assms(3) by simp
  have "p / 100 \<le> 1" using assms by simp
  then have "of_int m * (p / 100) \<le> (of_int m :: rat) * 1"
    using assms(3) by (intro mult_left_mono) simp_all
  then show "of_int m * (p / 100) \<le> (of_int m :: rat)" by simp
qed


lemma percentile_refines:
  assumes "0 \<le> p" "p \<le> 100"
  shows "percentile latencies p = Inr (percentile_spec latencies p)"
proof (cases "latencies = []")
  case True
  then show ?thesis by (simp add: percentile_def percentile_spec_def)
next
  case ne: False
  define n where "n = int (length latencies)"
  define k where "k = (of_int (int (length latencies) - 1) :: rat) * (p / 100)"
  define f where "f = py_int k"
  define c where "c = min (f + 1) (int (length latencies) - 1)"
  have n: "1 \<le> n" using ne by (simp add: n_def Suc_le_eq)
  have m: "0 \<le> int (length latencies) - 1" using n unfolding n_def by linarith
  have k0: "0 \<le> k" and kn: "k \<le> of_int (n - 1)"
    using rank_bounds[OF assms m] by (simp_all add: k_def n_def)
  have ff: "f = \<lfloor>k\<rfloor>" using k0 by (simp add: f_def py_int_nonneg)
  have f0: "0 \<le> f" using k0 by (simp add: ff)
  have fn: "f \<le> n - 1" using kn unfolding ff by (metis floor_mono floor_of_int)
  have c0: "0 \<le> c" and cn: "c \<le> n - 1" using f0 n ne by (simp_all add: c_def n_def)
  have sk: "k = spec_rank latencies p" by (simp add: k_def spec_rank_int[OF ne])
  have fs: "nat f = nat \<lfloor>k\<rfloor>" by (simp add: ff)
  have cs: "nat c = min (nat f + 1) (length latencies - 1)"
  proof (cases "f + 1 \<le> n - 1")
    case True
    then have "c = f + 1" by (simp add: c_def n_def)
    then have c1: "nat c = nat f + 1" using f0 by (simp add: nat_add_distrib)
    have "nat f + 1 \<le> length latencies - 1" using True f0 unfolding n_def by linarith
    then show ?thesis unfolding c1 by (simp only: min_absorb1)
  next
    case False
    then have "c = n - 1" by (simp add: c_def n_def)
    then have c1: "nat c = length latencies - 1" unfolding n_def by linarith
    have "length latencies - 1 \<le> nat f + 1" using False f0 unfolding n_def by linarith
    then show ?thesis unfolding c1 by (simp only: min_absorb2)
  qed
  have gf: "getitem (sort latencies) f = Inr (sort latencies ! nat f)"
    using f0 fn by (intro getitem_in_range) (simp_all add: n_def)
  have gc: "getitem (sort latencies) c = Inr (sort latencies ! nat c)"
    using c0 cn by (intro getitem_in_range) (simp_all add: n_def)
  have feq: "(nat f = nat c) = (f = c)" using f0 c0 by auto
  have ofc: "(of_nat (nat c) :: rat) = of_int c" using c0 by simp
  have off: "(of_nat (nat f) :: rat) = of_int f" using f0 by simp
  show ?thesis
    unfolding percentile_cases[OF ne k_def f_def c_def]
      percentile_spec_cases[OF ne sk fs cs] gf gc feq ofc off
    by simp
qed

lemma spec_index_in_range:
  assumes "0 \<le> p" "p \<le> 100" "latencies \<noteq> []"
  shows "nat \<lfloor>spec_rank latencies p\<rfloor> < length latencies"
proof -
  have "1 \<le> int (length latencies)" using assms(3) by (simp add: Suc_le_eq)
  then have m: "0 \<le> int (length latencies) - 1" by linarith
  have "spec_rank latencies p \<le> of_int (int (length latencies) - 1)"
    unfolding spec_rank_int[OF assms(3)] by (rule rank_bounds(2)[OF assms(1,2) m])
  then have "\<lfloor>spec_rank latencies p\<rfloor> \<le> int (length latencies) - 1"
    by (metis floor_mono floor_of_int)
  then show ?thesis using m by linarith
qed

text \<open>
  Claim C1. For every latency list and every rank \<open>p\<close> in \<open>[0,100]\<close>, \<open>percentile\<close>
  returns (without raising) the value the specification describes: 0 for the empty list,
  otherwise the order statistic at \<open>f = floor k\<close> when \<open>f = c\<close> and the interpolation
  \<open>sorted[f]*(c-k) + sorted[c]*(k-f)\<close> otherwise, with \<open>f\<close> an index of the list; on
  \<open>[10,20,30,40]\<close> the ranks 50, 0 and 100 give 25, 10 and 40.
\<close>

theorem percentile_interpolates:
  "(0 \<le> p \<and> p \<le> 100 \<longrightarrow>
      percentile latencies p = Inr (percentile_spec latencies p)
      \<and> (latencies \<noteq> [] \<longrightarrow> nat \<lfloor>spec_rank latencies p\<rfloor> < length latencies))
   \<and> percentile [] p = Inr 0
   \<and> percentile [10, 20, 30, 40] 50 = Inr 25
   \<and> percentile [10, 20, 30, 40] 0 = Inr 10
   \<and> percentile [10, 20, 30, 40] 100 = Inr 40"
proof (intro conjI impI)
  assume "0 \<le> p \<and> p \<le> 100"
  then show "percentile latencies p = Inr (percentile_spec latencies p)"
    by (simp add: percentile_refines)
next
  assume "0 \<le> p \<and> p \<le> 100" "latencies \<noteq> []"
  then show "nat \<lfloor>spec_rank latencies p\<rfloor> < length latencies"
    by (simp add: spec_index_in_range)
next
  show "percentile [] p = Inr 0" by (simp add: percentile_def)
next
  show "percentile [10, 20, 30, 40] 50 = Inr 25" by code_simp
next
  show "percentile [10, 20, 30, 40] 0 = Inr 10" by code_simp
next
  show "percentile [10, 20, 30, 40] 100 = Inr 40" by code_simp
qed

theorem percentile_interpolates_witness:
  "(0::rat) \<le> 90 \<and> (90::rat) \<le> 100
   \<and> percentile [3, 1, 2] 90 = Inr (percentile_spec [3, 1, 2] 90)
   \<and> percentile_spec [3, 1, 2] 90 = 14 / 5"
proof -
  have v: "percentile_spec [3, 1, 2] 90 = 14 / 5" by code_simp
  have b: "(0::rat) \<le> 90 \<and> (90::rat) \<le> 100" by simp
  from percentile_interpolates [of 90 "[3, 1, 2]"] b
  have "percentile [3, 1, 2] 90 = Inr (percentile_spec [3, 1, 2] 90)" by blast
  with v b show ?thesis by blast
qed

subsection \<open>percentile on floats: ranks beyond the last index\<close>

lemma percentile_float_exact:
  "percentile_float Fin latencies (Fin p) = map_sum id Fin (percentile latencies p)"
  by (simp add: percentile_float_def percentile_def rank_def fl_sub_def Let_def
        split: sum.splits)

lemma rank_rounds_down: "rank to_float 201 (Fin (201 / 2)) = Fin (7072058789855231 / 35184372088832)"
  by code_simp

lemma percentile_float_finite_rank:
  assumes "2 \<le> length latencies" "rank rnd (length latencies) p = Fin k"
      and "of_nat (length latencies) \<le> k"
  shows "percentile_float rnd latencies p = Inl IndexError"
proof -
  define n where "n = int (length latencies)"
  have ne: "latencies \<noteq> []" using assms(1) by auto
  have n2: "2 \<le> n" using assms(1) by (simp add: n_def)
  have nk: "of_int n \<le> k" using assms(3) by (simp add: n_def)
  have "(0::rat) \<le> of_int n" using n2 by simp
  then have k0: "0 \<le> k" using nk by (rule order_trans)
  have f: "n \<le> py_int k" using nk k0 by (simp add: py_int_nonneg le_floor_iff)
  then have neq: "py_int k \<noteq> min (py_int k + 1) (n - 1)" by simp
  have g: "getitem (sort latencies) (py_int k) = Inl IndexError"
    using f by (intro getitem_too_large) (simp add: n_def)
  show ?thesis
    using ne neq g assms(2) by (simp add: percentile_float_def Let_def n_def)
qed

lemma percentile_float_top_rank:
  assumes "latencies \<noteq> []" "rank rnd (length latencies) p = Fin k"
      and "of_int (int (length latencies) - 1) \<le> k" "k < of_int (int (length latencies))"
  shows "percentile_float rnd latencies p = Inr (Fin (last (sort latencies)))"
proof -
  define n where "n = int (length latencies)"
  have n1: "1 \<le> n" using assms(1) by (simp add: n_def Suc_le_eq)
  have lo: "of_int (n - 1) \<le> k" and hi: "k < of_int (n - 1) + 1"
    using assms(3,4) by (simp_all add: n_def)
  have fl: "\<lfloor>k\<rfloor> = n - 1" using lo hi by (rule floor_unique)
  have "(0::rat) \<le> of_int (n - 1)" using n1 by simp
  then have k0: "0 \<le> k" using lo by (rule order_trans)
  have f: "py_int k = n - 1" using k0 fl by (simp add: py_int_nonneg)
  have c: "min (py_int k + 1) (n - 1) = n - 1" unfolding f by simp
  have "0 \<le> n - 1" "n - 1 < int (length (sort latencies))" using n1 unfolding n_def length_sort by linarith+
  then have g: "getitem (sort latencies) (n - 1) = Inr (sort latencies ! nat (n - 1))"
    by (rule getitem_in_range)
  have "nat (n - 1) = length (sort latencies) - 1" unfolding n_def by simp
  moreover have "sort latencies \<noteq> []" using assms(1) by (metis length_sort length_0_conv)
  ultimately have l: "sort latencies ! nat (n - 1) = last (sort latencies)"
    by (simp add: last_conv_nth)
  show ?thesis
    using assms(1,2) by (simp add: percentile_float_def Let_def n_def[symmetric] f g l)
qed

text \<open>
  Claim C10, as the code has it. \<open>percentile\<close> is not total outside \<open>[0,100]\<close>. For a
  list of \<open>n \<ge> 2\<close> latencies and a rank \<open>p\<close>, let \<open>k\<close> be the float that line 14
  computes for \<open>(n-1) * (p/100)\<close>. When \<open>k\<close> is finite and \<open>k \<ge> n\<close>, the index
  \<open>f = int(k)\<close> is past the end of the sorted list and the call raises IndexError. When
  \<open>k\<close> is an infinity (\<open>p\<close> infinite) \<open>int(k)\<close> raises OverflowError, and when \<open>k\<close> is
  a NaN it raises ValueError.
\<close>

theorem percentile_rank_past_end_raises:
  "2 \<le> length latencies \<Longrightarrow>
     (\<forall>k. rank rnd (length latencies) p = Fin k \<and> of_nat (length latencies) \<le> k \<longrightarrow>
          percentile_float rnd latencies p = Inl IndexError)
   \<and> (rank rnd (length latencies) p = PosInf \<or> rank rnd (length latencies) p = NegInf \<longrightarrow>
          percentile_float rnd latencies p = Inl OverflowError)
   \<and> (rank rnd (length latencies) p = NaN \<longrightarrow>
          percentile_float rnd latencies p = Inl ValueError)"
proof (intro conjI allI impI)
  fix k
  assume "2 \<le> length latencies"
     and "rank rnd (length latencies) p = Fin k \<and> of_nat (length latencies) \<le> k"
  then show "percentile_float rnd latencies p = Inl IndexError"
    using percentile_float_finite_rank by blast
next
  assume "2 \<le> length latencies"
     and "rank rnd (length latencies) p = PosInf \<or> rank rnd (length latencies) p = NegInf"
  then show "percentile_float rnd latencies p = Inl OverflowError"
    by (auto simp: percentile_float_def Let_def)
next
  assume "2 \<le> length latencies" and "rank rnd (length latencies) p = NaN"
  then show "percentile_float rnd latencies p = Inl ValueError"
    by (auto simp: percentile_float_def Let_def)
qed

theorem percentile_rank_past_end_raises_witness:
  "2 \<le> length [1, 2 :: rat]
   \<and> rank to_float (length [1, 2 :: rat]) (Fin 200) = Fin 2
   \<and> of_nat (length [1, 2 :: rat]) \<le> (2 :: rat)
   \<and> percentile_float to_float [1, 2] (Fin 200) = Inl IndexError
   \<and> rank to_float (length [1, 2 :: rat]) PosInf = PosInf
   \<and> percentile_float to_float [1, 2] PosInf = Inl OverflowError
   \<and> rank to_float (length [1, 2 :: rat]) NaN = NaN
   \<and> percentile_float to_float [1, 2] NaN = Inl ValueError"
proof -
  have a: "2 \<le> length [1, 2 :: rat]" by simp
  have b: "rank to_float (length [1, 2 :: rat]) (Fin 200) = Fin 2" by code_simp
  have c: "of_nat (length [1, 2 :: rat]) \<le> (2 :: rat)" by simp
  have d: "rank to_float (length [1, 2 :: rat]) PosInf = PosInf" by code_simp
  have e: "rank to_float (length [1, 2 :: rat]) NaN = NaN" by code_simp
  note t = percentile_rank_past_end_raises [OF a, of to_float]
  from t [of "Fin 200"] b c have b1: "percentile_float to_float [1, 2] (Fin 200) = Inl IndexError"
    by blast
  from t [of PosInf] d have d1: "percentile_float to_float [1, 2] PosInf = Inl OverflowError"
    by blast
  from t [of NaN] e have e1: "percentile_float to_float [1, 2] NaN = Inl ValueError"
    by blast
  show ?thesis by (intro conjI) (rule a b c b1 d d1 e e1)+
qed

text \<open>
  Claim C10 as stated (IndexError for every \<open>p\<close> with \<open>(n-1)*(p/100) \<ge> n\<close>) fails for an
  infinite \<open>p\<close>: the rank is infinite, so the condition holds, and the call raises
  OverflowError.
\<close>

theorem percentile_infinite_rank_counterexample:
  "2 \<le> length [1, 2 :: rat]
   \<and> fl_ge_int (rank to_float (length [1, 2 :: rat]) PosInf) (int (length [1, 2 :: rat]))
   \<and> percentile_float to_float [1, 2] PosInf = Inl OverflowError"
  by code_simp

subsection \<open>The summary of a run\<close>

lemma counter_fold:
  "map_of (fold (\<lambda>x al. AList.update x (case map_of al x of None \<Rightarrow> 1 | Some n \<Rightarrow> n + 1) al) xs al0) c =
     (case map_of al0 c of
        None \<Rightarrow> if count_list xs c = 0 then None else Some (count_list xs c)
      | Some n \<Rightarrow> Some (n + count_list xs c))"
proof (induction xs arbitrary: al0)
  case Nil
  then show ?case by (simp split: option.split)
next
  case (Cons x xs)
  show ?case
    unfolding fold_simps Cons.IH
    by (auto simp: update_conv' split: option.split)
qed

lemma map_of_counter:
  "map_of (counter xs) c = (if count_list xs c = 0 then None else Some (count_list xs c))"
  unfolding counter_def counter_fold by simp

lemma count_list_filter: "count_list xs c = length (filter (\<lambda>x. x = c) xs)"
  by (induction xs) simp_all

lemma count_codes:
  "count_list (map (\<lambda>r. the (status_code r)) (filter (\<lambda>r. status_code r \<noteq> None) rs)) c
     = length (filter (\<lambda>r. status_code r = Some c) rs)"
  by (induction rs) auto

lemma success_filter:
  "filter is_success (filter (\<lambda>r. status_code r \<noteq> None) rs) = filter is_success rs"
  by (induction rs) (auto simp: is_success_def)

lemma failure_filter:
  "filter is_http_failure (filter (\<lambda>r. status_code r \<noteq> None) rs) = filter is_http_failure rs"
  by (induction rs) (auto simp: is_http_failure_def)

lemma metrics_returns:
  "metrics rs t =
     Inr \<lparr> total_time_seconds = t,
           requests_total = length rs,
           successful_requests = length (filter is_success rs),
           failed_requests = length (filter is_http_failure rs) + length (filter is_transport_error rs),
           transport_errors = length (filter is_transport_error rs),
           requests_per_second = (if 0 < t then of_nat (length rs) / t else 0),
           lat_avg = (if rs \<noteq> [] then mean (map latency_ms rs) else 0),
           lat_min = (if rs \<noteq> [] then Min (set (map latency_ms rs)) else 0),
           lat_max = (if rs \<noteq> [] then Max (set (map latency_ms rs)) else 0),
           p50 = percentile_spec (map latency_ms rs) 50,
           p90 = percentile_spec (map latency_ms rs) 90,
           p95 = percentile_spec (map latency_ms rs) 95,
           p99 = percentile_spec (map latency_ms rs) 99,
           status_codes = counter (map (\<lambda>r. the (status_code r)) (filter (\<lambda>r. status_code r \<noteq> None) rs)) \<rparr>"
proof -
  have q: "percentile (map latency_ms rs) 50 = Inr (percentile_spec (map latency_ms rs) 50)"
          "percentile (map latency_ms rs) 90 = Inr (percentile_spec (map latency_ms rs) 90)"
          "percentile (map latency_ms rs) 95 = Inr (percentile_spec (map latency_ms rs) 95)"
          "percentile (map latency_ms rs) 99 = Inr (percentile_spec (map latency_ms rs) 99)"
    by (simp_all add: percentile_refines)
  show ?thesis
    unfolding metrics_def Let_def q success_filter failure_filter by simp
qed


lemma length_filter_by_kind:
  "length (filter (\<lambda>r. Q (g r)) rs) = size (filter_mset Q (mset (map g rs)))"
  by (induction rs) simp_all

lemma filter_replicate_mset_if:
  "filter_mset P (replicate_mset n x) = (if P x then replicate_mset n x else {#})"
  by (induction n) simp_all

lemma scenario_counts:
  assumes "mset (map (\<lambda>r. (status_code r, is_transport_error r)) rs) = scenario_c"
  shows "length (filter is_success rs) = 5"
    and "length (filter is_http_failure rs) = 3"
    and "length (filter is_transport_error rs) = 2"
    and "length (filter (\<lambda>r. status_code r = Some c) rs) = (if c = 200 then 5 else if c = 500 then 3 else 0)"
proof -
  let ?g = "\<lambda>r. (status_code r, is_transport_error r)"
  have k: "length (filter (\<lambda>r. Q (?g r)) rs) = size (filter_mset Q scenario_c)" for Q
    unfolding assms[symmetric] by (rule length_filter_by_kind)
  show "length (filter is_success rs) = 5"
    using k[of "\<lambda>k. case fst k of None \<Rightarrow> False | Some c \<Rightarrow> c < 400"]
    by (simp add: is_success_def[abs_def] scenario_c_def filter_replicate_mset_if)
  show "length (filter is_http_failure rs) = 3"
    using k[of "\<lambda>k. case fst k of None \<Rightarrow> False | Some c \<Rightarrow> 400 \<le> c"]
    by (simp add: is_http_failure_def[abs_def] scenario_c_def filter_replicate_mset_if)
  show "length (filter is_transport_error rs) = 2"
    using k[of snd] by (simp add: scenario_c_def filter_replicate_mset_if)
  show "length (filter (\<lambda>r. status_code r = Some c) rs) = (if c = 200 then 5 else if c = 500 then 3 else 0)"
    using k[of "\<lambda>k. fst k = Some c"] by (simp add: scenario_c_def filter_replicate_mset_if)
qed

text \<open>
  Claim C3. For every outcome list and duration \<open>t\<close> the summary is returned, with:
  successes the outcomes with a status below 400; failures the outcomes with a status
  of at least 400 plus the transport errors; average, minimum, maximum and the four
  percentiles over the latencies of all outcomes; requests per second \<open>total / t\<close> for
  \<open>t > 0\<close> and 0 otherwise; the status histogram counting the outcomes that carry a
  status. In scenario C the counts are 5, 5 and 2 and the histogram is
  \<open>{200: 5, 500: 3}\<close>.
\<close>

theorem summary_of_outcomes:
  "\<exists>m. metrics rs t = Inr m
     \<and> requests_total m = length rs
     \<and> successful_requests m = length (filter (\<lambda>r. \<exists>c. status_code r = Some c \<and> c < 400) rs)
     \<and> failed_requests m =
         length (filter (\<lambda>r. \<exists>c. status_code r = Some c \<and> 400 \<le> c) rs)
         + length (filter is_transport_error rs)
     \<and> transport_errors m = length (filter is_transport_error rs)
     \<and> lat_avg m = (if rs = [] then 0 else sum_list (map latency_ms rs) / of_nat (length rs))
     \<and> lat_min m = (if rs = [] then 0 else Min (latency_ms ` set rs))
     \<and> lat_max m = (if rs = [] then 0 else Max (latency_ms ` set rs))
     \<and> p50 m = percentile_spec (map latency_ms rs) 50
     \<and> p90 m = percentile_spec (map latency_ms rs) 90
     \<and> p95 m = percentile_spec (map latency_ms rs) 95
     \<and> p99 m = percentile_spec (map latency_ms rs) 99
     \<and> requests_per_second m = (if 0 < t then of_nat (length rs) / t else 0)
     \<and> (\<forall>c. map_of (status_codes m) c =
            (if \<exists>r \<in> set rs. status_code r = Some c
             then Some (length (filter (\<lambda>r. status_code r = Some c) rs)) else None))
     \<and> (mset (map (\<lambda>r. (status_code r, is_transport_error r)) rs) = scenario_c \<longrightarrow>
            successful_requests m = 5 \<and> failed_requests m = 5 \<and> transport_errors m = 2
            \<and> map_of (status_codes m) = [200 \<mapsto> 5, 500 \<mapsto> 3])"
proof -
  have s: "is_success = (\<lambda>r. \<exists>c. status_code r = Some c \<and> c < 400)"
    by (auto simp: is_success_def fun_eq_iff split: option.split)
  have f: "is_http_failure = (\<lambda>r. \<exists>c. status_code r = Some c \<and> 400 \<le> c)"
    by (auto simp: is_http_failure_def fun_eq_iff split: option.split)
  have h: "map_of (counter (map (\<lambda>r. the (status_code r)) (filter (\<lambda>r. status_code r \<noteq> None) rs))) c =
            (if \<exists>r \<in> set rs. status_code r = Some c
             then Some (length (filter (\<lambda>r. status_code r = Some c) rs)) else None)" for c
    unfolding map_of_counter count_codes by (auto simp: filter_empty_conv)
  have sc: "map_of (counter (map (\<lambda>r. the (status_code r)) (filter (\<lambda>r. status_code r \<noteq> None) rs)))
              = [200 \<mapsto> 5, 500 \<mapsto> 3]"
    if "mset (map (\<lambda>r. (status_code r, is_transport_error r)) rs) = scenario_c"
    unfolding map_of_counter count_codes scenario_counts(4)[OF that] fun_eq_iff by simp
  obtain m where m: "metrics rs t = Inr m" by (simp add: metrics_returns)
  have flds:
    "requests_total m = length rs"
    "successful_requests m = length (filter is_success rs)"
    "failed_requests m = length (filter is_http_failure rs) + length (filter is_transport_error rs)"
    "transport_errors m = length (filter is_transport_error rs)"
    "lat_avg m = (if rs \<noteq> [] then mean (map latency_ms rs) else 0)"
    "lat_min m = (if rs \<noteq> [] then Min (set (map latency_ms rs)) else 0)"
    "lat_max m = (if rs \<noteq> [] then Max (set (map latency_ms rs)) else 0)"
    "p50 m = percentile_spec (map latency_ms rs) 50"
    "p90 m = percentile_spec (map latency_ms rs) 90"
    "p95 m = percentile_spec (map latency_ms rs) 95"
    "p99 m = percentile_spec (map latency_ms rs) 99"
    "requests_per_second m = (if 0 < t then of_nat (length rs) / t else 0)"
    "status_codes m = counter (map (\<lambda>r. the (status_code r)) (filter (\<lambda>r. status_code r \<noteq> None) rs))"
    using m unfolding metrics_returns by auto
  show ?thesis
  proof (intro exI[of _ m] conjI allI impI)
    show "metrics rs t = Inr m" by (rule m)
    show "requests_total m = length rs" by (rule flds)
    show "successful_requests m = length (filter (\<lambda>r. \<exists>c. status_code r = Some c \<and> c < 400) rs)"
      unfolding flds s ..
    show "failed_requests m =
         length (filter (\<lambda>r. \<exists>c. status_code r = Some c \<and> 400 \<le> c) rs)
         + length (filter is_transport_error rs)"
      unfolding flds f ..
    show "transport_errors m = length (filter is_transport_error rs)" by (rule flds)
    show "lat_avg m = (if rs = [] then 0 else sum_list (map latency_ms rs) / of_nat (length rs))"
      unfolding flds by (simp add: mean_def)
    show "lat_min m = (if rs = [] then 0 else Min (latency_ms ` set rs))"
      unfolding flds by simp
    show "lat_max m = (if rs = [] then 0 else Max (latency_ms ` set rs))"
      unfolding flds by simp
    show "p50 m = percentile_spec (map latency_ms rs) 50" by (rule flds)
    show "p90 m = percentile_spec (map latency_ms rs) 90" by (rule flds)
    show "p95 m = percentile_spec (map latency_ms rs) 95" by (rule flds)
    show "p99 m = percentile_spec (map latency_ms rs) 99" by (rule flds)
    show "requests_per_second m = (if 0 < t then of_nat (length rs) / t else 0)" by (rule flds)
    show "map_of (status_codes m) c =
            (if \<exists>r \<in> set rs. status_code r = Some c
             then Some (length (filter (\<lambda>r. status_code r = Some c) rs)) else None)" for c
      unfolding flds by (rule h)
  next
    assume sc': "mset (map (\<lambda>r. (status_code r, is_transport_error r)) rs) = scenario_c"
    show "successful_requests m = 5" "failed_requests m = 5" "transport_errors m = 2"
      unfolding flds scenario_counts(1-3)[OF sc'] by simp_all
    show "map_of (status_codes m) = [200 \<mapsto> 5, 500 \<mapsto> 3]"
      unfolding flds by (rule sc[OF sc'])
  qed
qed

theorem summary_of_outcomes_witness:
  "mset (map (\<lambda>r. (status_code r, is_transport_error r)) mixed_run) = scenario_c
   \<and> (\<exists>m. metrics mixed_run 2 = Inr m
          \<and> requests_total m = 10 \<and> requests_per_second m = 5
          \<and> successful_requests m = 5 \<and> failed_requests m = 5 \<and> transport_errors m = 2
          \<and> map_of (status_codes m) = [200 \<mapsto> 5, 500 \<mapsto> 3])"
proof -
  have h: "mset (map (\<lambda>r. (status_code r, is_transport_error r)) mixed_run) = scenario_c"
    by (simp add: mixed_run_def Let_def scenario_c_def eval_nat_numeral)
  have l: "length mixed_run = 10" by (simp add: mixed_run_def Let_def)
  from summary_of_outcomes [of mixed_run 2] obtain m where
    m: "metrics mixed_run 2 = Inr m" "requests_total m = length mixed_run"
       "requests_per_second m = (if (0::rat) < 2 then of_nat (length mixed_run) / 2 else 0)"
       "mset (map (\<lambda>r. (status_code r, is_transport_error r)) mixed_run) = scenario_c \<longrightarrow>
            successful_requests m = 5 \<and> failed_requests m = 5 \<and> transport_errors m = 2
            \<and> map_of (status_codes m) = [200 \<mapsto> 5, 500 \<mapsto> 3]"
    by blast
  from m h l show ?thesis by simp
qed


subsection \<open>Invariants of a run\<close>

lemma exec_append:
  "exec cfg (as @ bs) s = (case exec cfg as s of None \<Rightarrow> None | Some s' \<Rightarrow> exec cfg bs s')"
  by (induction as arbitrary: s) (simp_all split: option.split)

lemma exec_invariant:
  assumes step: "\<And>a s s'. P s \<Longrightarrow> step cfg a s = Some s' \<Longrightarrow> P s'"
      and "P s" and "exec cfg sched s = Some s'"
  shows "P s'"
  using assms(2,3)
proof (induction sched arbitrary: s)
  case Nil
  then show ?case by simp
next
  case (Cons a sched)
  then show ?case by (auto split: option.splits dest: step)
qed

lemma step_permits:
  "step cfg a s = Some s' \<Longrightarrow>
   sem_value s' + in_request s' + in_callback s' = sem_value s + in_request s + in_callback s"
  by (cases a) (auto simp: record_outcome_def report_progress_def Let_def split: if_splits)

lemma step_workers:
  "step cfg a s = Some s' \<Longrightarrow>
   not_started s' + in_request s' + length (results s') = not_started s + in_request s + length (results s)"
  by (cases a) (auto simp: record_outcome_def report_progress_def Let_def split: if_splits)

lemma step_completed:
  "step cfg a s = Some s' \<Longrightarrow>
   state_completed s' - int (length (results s')) = state_completed s - int (length (results s))"
  by (cases a) (auto simp: record_outcome_def report_progress_def Let_def split: if_splits)

lemma step_issued:
  "step cfg a s = Some s' \<Longrightarrow>
   requests_issued s' + (in_request s + length (results s)) = requests_issued s + (in_request s' + length (results s'))"
  by (cases a) (auto simp: record_outcome_def report_progress_def Let_def split: if_splits)

lemma step_raised:
  "step cfg a s = Some s' \<Longrightarrow> a \<noteq> CallbackRaises \<Longrightarrow> raised s' = raised s"
  by (cases a) (auto simp: record_outcome_def report_progress_def Let_def split: if_splits)

lemma step_measure:
  "step cfg a s = Some s' \<Longrightarrow>
   3 * not_started s' + 2 * in_request s' + in_callback s' < 3 * not_started s + 2 * in_request s + in_callback s"
  by (cases a) (auto simp: record_outcome_def report_progress_def Let_def split: if_splits)


lemma exec_permits:
  "exec cfg sched s = Some s' \<Longrightarrow>
   sem_value s' + in_request s' + in_callback s' = sem_value s + in_request s + in_callback s"
  by (induction sched arbitrary: s) (auto split: option.splits dest: step_permits)

lemma exec_workers:
  "exec cfg sched s = Some s' \<Longrightarrow>
   not_started s' + in_request s' + length (results s') = not_started s + in_request s + length (results s)"
  by (induction sched arbitrary: s) (auto split: option.splits dest: step_workers)

lemma exec_completed:
  "exec cfg sched s = Some s' \<Longrightarrow>
   state_completed s' - int (length (results s')) = state_completed s - int (length (results s))"
  by (induction sched arbitrary: s) (auto split: option.splits dest: step_completed)

lemma exec_issued:
  "exec cfg sched s = Some s' \<Longrightarrow>
   requests_issued s' + (in_request s + length (results s)) = requests_issued s + (in_request s' + length (results s'))"
proof (induction sched arbitrary: s)
  case Nil
  then show ?case by simp
next
  case (Cons a sched)
  then obtain s1 where a: "step cfg a s = Some s1" and r: "exec cfg sched s1 = Some s'"
    by (auto split: option.splits)
  from step_issued[OF a] Cons.IH[OF r] show ?case by linarith
qed

lemma exec_raised:
  "exec cfg sched s = Some s' \<Longrightarrow> CallbackRaises \<notin> set sched \<Longrightarrow> raised s = None \<Longrightarrow> raised s' = None"
proof (induction sched arbitrary: s)
  case Nil
  then show ?case by simp
next
  case (Cons a sched)
  then obtain s1 where a: "step cfg a s = Some s1" and r: "exec cfg sched s1 = Some s'"
    by (auto split: option.splits)
  have "a \<noteq> CallbackRaises" "CallbackRaises \<notin> set sched" using Cons.prems(2) by auto
  then show ?case using Cons.IH[OF r] step_raised[OF a] Cons.prems(3) by simp
qed

lemma exec_measure:
  "exec cfg sched s = Some s' \<Longrightarrow>
   length sched + (3 * not_started s' + 2 * in_request s' + in_callback s')
     \<le> 3 * not_started s + 2 * in_request s + in_callback s"
proof (induction sched arbitrary: s)
  case Nil
  then show ?case by simp
next
  case (Cons a sched)
  then obtain s1 where a: "step cfg a s = Some s1" and r: "exec cfg sched s1 = Some s'"
    by (auto split: option.splits)
  from step_measure[OF a] Cons.IH[OF r] show ?case by simp
qed

lemma can_continue:
  assumes "raised s = None" "\<not> all_done s" "0 < sem_value s + in_request s + in_callback s"
  shows "\<exists>a s'. a \<noteq> CallbackRaises \<and> step cfg a s = Some s'"
proof -
  consider "0 < in_request s" | "0 < in_callback s"
    | "in_request s = 0" "in_callback s = 0" "0 < not_started s" "0 < sem_value s"
    using assms(2,3) by (auto simp: all_done_def)
  then show ?thesis
  proof cases
    case 1
    then have "\<exists>s'. step cfg (Response \<lparr>reply = NoResponse, elapsed_ms = 0, now = 0, sent_at = 0\<rparr>) s = Some s'"
      using assms(1) by (simp add: Let_def)
    then show ?thesis by blast
  next
    case 2
    then have "\<exists>s'. step cfg CallbackReturns s = Some s'" using assms(1) by simp
    then show ?thesis by blast
  next
    case 3
    then have "\<exists>s'. step cfg Acquire s = Some s'" using assms(1) by simp
    then show ?thesis by blast
  qed
qed

lemma can_finish:
  assumes "raised s = None" "0 < sem_value s + in_request s + in_callback s"
  shows "\<exists>rest s'. CallbackRaises \<notin> set rest \<and> exec cfg rest s = Some s' \<and> all_done s'"
  using assms
proof (induction "3 * not_started s + 2 * in_request s + in_callback s" arbitrary: s rule: less_induct)
  case less
  show ?case
  proof (cases "all_done s")
    case True
    then have "CallbackRaises \<notin> set [] \<and> exec cfg [] s = Some s \<and> all_done s" by simp
    then show ?thesis by blast
  next
    case False
    from can_continue[OF less.prems(1) False less.prems(2)]
    obtain a s1 where a: "a \<noteq> CallbackRaises" "step cfg a s = Some s1" by blast
    have r1: "raised s1 = None" using step_raised[OF a(2) a(1)] less.prems(1) by simp
    have p1: "0 < sem_value s1 + in_request s1 + in_callback s1"
      using step_permits[OF a(2)] less.prems(2) by simp
    from less.hyps[OF step_measure[OF a(2)] r1 p1]
    obtain rest s' where r: "CallbackRaises \<notin> set rest" "exec cfg rest s1 = Some s'" "all_done s'"
      by blast
    have "CallbackRaises \<notin> set (a # rest) \<and> exec cfg (a # rest) s = Some s' \<and> all_done s'"
      using a r by simp
    then show ?thesis by blast
  qed
qed


lemma init_fields:
  "results (init_state cfg) = []" "state_completed (init_state cfg) = 0"
  "timeseries (init_state cfg) = []" "sem_value (init_state cfg) = nat (concurrency cfg)"
  "not_started (init_state cfg) = nat (total_requests cfg)" "in_request (init_state cfg) = 0"
  "in_callback (init_state cfg) = 0" "requests_issued (init_state cfg) = 0"
  "delivered (init_state cfg) = []" "raised (init_state cfg) = None"
  by (simp_all add: init_state_def)

lemma demo_exec:
  "\<exists>s. exec demo_config demo_schedule (init_state demo_config) = Some s \<and> all_done s"
  by (simp add: demo_config_def demo_schedule_def init_state_def record_outcome_def
        report_progress_def all_done_def Let_def)

text \<open>
  Claim C9. In every state of a run with configured concurrency \<open>c\<close>, before and
  after an exception of a callback, the permits left
  plus the workers holding one (awaiting the transport call or the callback) are exactly
  \<open>c\<close>; so at most \<open>c\<close> transport calls are in flight. A request is issued only by a
  worker that takes a permit, and only while one is left.
\<close>

theorem permits_bound_requests_in_flight:
  "exec cfg sched (init_state cfg) = Some s \<Longrightarrow>
     sem_value s + in_request s + in_callback s = nat (concurrency cfg)
   \<and> in_request s \<le> nat (concurrency cfg)
   \<and> in_request s + in_callback s \<le> nat (concurrency cfg)
   \<and> (\<forall>s'. step cfg Acquire s = Some s' \<longrightarrow> 0 < sem_value s \<and> sem_value s' = sem_value s - 1)"
proof -
  assume e: "exec cfg sched (init_state cfg) = Some s"
  have p: "sem_value s + in_request s + in_callback s = nat (concurrency cfg)"
    using exec_permits[OF e] by (simp add: init_fields)
  have a: "\<forall>s'. step cfg Acquire s = Some s' \<longrightarrow> 0 < sem_value s \<and> sem_value s' = sem_value s - 1"
    by (auto split: if_splits)
  have b: "in_request s \<le> nat (concurrency cfg)"
          "in_request s + in_callback s \<le> nat (concurrency cfg)"
    using p by simp_all
  show ?thesis using p b a by blast
qed

theorem permits_bound_requests_in_flight_witness:
  "\<exists>s. exec demo_config failing_schedule (init_state demo_config) = Some s
       \<and> raised s = Some CallbackError
       \<and> in_request s + in_callback s \<le> nat (concurrency demo_config)
       \<and> in_request s = 2 \<and> sem_value s = 0"
proof -
  have "\<exists>s. exec demo_config failing_schedule (init_state demo_config) = Some s
       \<and> raised s = Some CallbackError \<and> in_request s = 2"
    by (simp add: demo_config_def failing_schedule_def init_state_def record_outcome_def
        report_progress_def Let_def)
  then obtain s where s: "exec demo_config failing_schedule (init_state demo_config) = Some s"
    and r: "raised s = Some CallbackError" and c: "in_request s = 2"
    by (elim exE conjE)
  have k: "nat (concurrency demo_config) = 2" by (simp add: demo_config_def)
  note t = permits_bound_requests_in_flight [OF s]
  from t have b: "in_request s + in_callback s \<le> nat (concurrency demo_config)" by blast
  from t have "sem_value s + in_request s + in_callback s = nat (concurrency demo_config)"
    by blast
  then have z: "sem_value s = 0" using c k by simp
  show ?thesis by (intro exI[of _ s] conjI) (rule s r b c z)+
qed

lemma no_callback_never_raises:
  assumes "\<not> progress_callback cfg" "in_callback s0 = 0" "exec cfg sched s0 = Some s"
  shows "CallbackRaises \<notin> set sched"
  using assms(2,3)
proof (induction sched arbitrary: s0)
  case Nil
  then show ?case by simp
next
  case (Cons a sched)
  then obtain s1 where a: "step cfg a s0 = Some s1" and r: "exec cfg sched s1 = Some s"
    by (auto split: option.splits)
  have "a \<noteq> CallbackRaises" using a Cons.prems(1) by auto
  moreover have "in_callback s1 = 0"
    using a Cons.prems(1) assms(1)
    by (cases a) (auto simp: record_outcome_def Let_def split: if_splits)
  ultimately show ?case using Cons.IH[OF _ r] by simp
qed

text \<open>
  Claim C2, as the code has it. For \<open>total_requests = n \<ge> 1\<close>, concurrency at least 1
  and any replies of the transport (statuses or failures), when no callback is supplied
  or its invocations return without raising: no exception reaches the run; a run that
  is not over can always go on, and is over after at most \<open>3n\<close> events; every run can
  be continued to its end; and at the end the counter is \<open>n\<close>, the outcome collection
  has \<open>n\<close> entries, \<open>n\<close> requests were issued, and \<open>run_load_test\<close> returns a result.
\<close>

theorem run_completes:
  assumes n: "1 \<le> total_requests cfg" and c: "1 \<le> concurrency cfg"
      and e: "exec cfg sched (init_state cfg) = Some s"
      and quiet: "\<not> progress_callback cfg \<or> CallbackRaises \<notin> set sched"
  shows "raised s = None
     \<and> length sched \<le> 3 * nat (total_requests cfg)
     \<and> (\<not> all_done s \<longrightarrow> (\<exists>a s'. a \<noteq> CallbackRaises \<and> step cfg a s = Some s'))
     \<and> (\<exists>rest s'. CallbackRaises \<notin> set rest
            \<and> exec cfg (sched @ rest) (init_state cfg) = Some s' \<and> all_done s')
     \<and> (all_done s \<longrightarrow>
            state_completed s = total_requests cfg
          \<and> int (length (results s)) = total_requests cfg
          \<and> requests_issued s = nat (total_requests cfg)
          \<and> (\<exists>m. run_load_test cfg sched t
                    = Some (Inr \<lparr> result_summary = m, result_timeseries = timeseries s \<rparr>)
                 \<and> requests_total m = nat (total_requests cfg)))"
proof -
  have nr: "CallbackRaises \<notin> set sched"
    using quiet no_callback_never_raises[OF _ _ e] by (auto simp: init_fields)
  have r: "raised s = None" using exec_raised[OF e nr] by (simp add: init_fields)
  have p: "sem_value s + in_request s + in_callback s = nat (concurrency cfg)"
    using exec_permits[OF e] by (simp add: init_fields)
  then have pos: "0 < sem_value s + in_request s + in_callback s" using c by simp
  have w: "not_started s + in_request s + length (results s) = nat (total_requests cfg)"
    using exec_workers[OF e] by (simp add: init_fields)
  have k: "state_completed s = int (length (results s))"
    using exec_completed[OF e] by (simp add: init_fields)
  have i: "requests_issued s = in_request s + length (results s)"
    using exec_issued[OF e] by (simp add: init_fields)
  have l: "length sched \<le> 3 * nat (total_requests cfg)"
    using exec_measure[OF e] by (simp add: init_fields)
  have g: "\<not> all_done s \<longrightarrow> (\<exists>a s'. a \<noteq> CallbackRaises \<and> step cfg a s = Some s')"
    using can_continue[OF r _ pos] by blast
  from can_finish[OF r pos] obtain rest s' where
    f: "CallbackRaises \<notin> set rest" "exec cfg rest s = Some s'" "all_done s'" by blast
  have "exec cfg (sched @ rest) (init_state cfg) = Some s'"
    by (simp add: exec_append e f(2))
  with f have fin: "\<exists>rest s'. CallbackRaises \<notin> set rest
            \<and> exec cfg (sched @ rest) (init_state cfg) = Some s' \<and> all_done s'" by blast
  have d: "state_completed s = total_requests cfg
          \<and> int (length (results s)) = total_requests cfg
          \<and> requests_issued s = nat (total_requests cfg)
          \<and> (\<exists>m. run_load_test cfg sched t
                    = Some (Inr \<lparr> result_summary = m, result_timeseries = timeseries s \<rparr>)
                 \<and> requests_total m = nat (total_requests cfg))" if ad: "all_done s"
  proof -
    have len: "length (results s) = nat (total_requests cfg)"
      using w ad by (simp add: all_done_def)
    obtain m where
      m: "metrics (results s) t = Inr m" "requests_total m = length (results s)"
      by (simp add: metrics_returns)
    have run: "run_load_test cfg sched t
                 = Some (Inr \<lparr> result_summary = m, result_timeseries = timeseries s \<rparr>)"
      using c e r ad m(1) by (simp add: run_load_test_def)
    show ?thesis using len k i ad n run m(2) by (auto simp: all_done_def)
  qed
  show ?thesis using r l g fin d by blast
qed

theorem run_completes_witness:
  "1 \<le> total_requests demo_config \<and> 1 \<le> concurrency demo_config
   \<and> CallbackRaises \<notin> set demo_schedule
   \<and> (\<exists>s. exec demo_config demo_schedule (init_state demo_config) = Some s \<and> all_done s
          \<and> state_completed s = 3 \<and> length (results s) = 3 \<and> requests_issued s = 3
          \<and> (\<exists>m. run_load_test demo_config demo_schedule 10
                    = Some (Inr \<lparr> result_summary = m, result_timeseries = timeseries s \<rparr>)))"
proof -
  have n: "1 \<le> total_requests demo_config" and c: "1 \<le> concurrency demo_config"
    by (simp_all add: demo_config_def)
  have nr: "CallbackRaises \<notin> set demo_schedule" by (simp add: demo_schedule_def)
  from demo_exec obtain s where
    s: "exec demo_config demo_schedule (init_state demo_config) = Some s" and d: "all_done s"
    by blast
  have t: "nat (total_requests demo_config) = 3" "total_requests demo_config = 3"
    by (simp_all add: demo_config_def)
  from run_completes [OF n c s disjI2[OF nr], of 10] d t
  have "state_completed s = 3 \<and> length (results s) = 3 \<and> requests_issued s = 3
          \<and> (\<exists>m. run_load_test demo_config demo_schedule 10
                    = Some (Inr \<lparr> result_summary = m, result_timeseries = timeseries s \<rparr>))"
    by auto
  with n c nr s d show ?thesis by blast
qed


text \<open>
  Claim C2 as stated (for every configuration and transport behaviour the run completes)
  fails: one request, answered with 200, whose callback invocation raises; the request
  has its outcome and every worker is done, but \<^verbatim>\<open>run_load_test\<close> raises.
\<close>

theorem run_aborted_by_callback_counterexample:
  "1 \<le> total_requests single_config \<and> 1 \<le> concurrency single_config
   \<and> map_option (map status_code \<circ> results)
        (exec single_config single_failing_schedule (init_state single_config)) = Some [Some 200]
   \<and> map_option all_done
        (exec single_config single_failing_schedule (init_state single_config)) = Some True
   \<and> run_load_test single_config single_failing_schedule 1 = Some (Inl CallbackError)"
  by (simp add: single_config_def single_failing_schedule_def init_state_def record_outcome_def
        report_progress_def outcome_of_def all_done_def Let_def run_load_test_def)

subsection \<open>The sampled timeseries\<close>

lemma step_response_callback:
  assumes "progress_callback cfg" "step cfg (Response c) s = Some s'"
  shows "results s' = results s @ [outcome_of c]"
    and "state_completed s' = state_completed s + 1"
    and "timeseries s' =
           (if timeseries s = [] \<or> 1 / 2 \<le> now c - timestamp (last (timeseries s))
            then timeseries s @
                   [\<lparr> timestamp = now c, completed = state_completed s + 1,
                      avg_latency_ms = fl_round2 (arith cfg)
                        (running_average (arith cfg) (map latency_ms (results s @ [outcome_of c]))),
                      errors = length (filter is_http_failure (results s @ [outcome_of c])) \<rparr>]
            else timeseries s)"
    and "delivered s' = delivered s @
           [\<lparr> timestamp = sent_at c, completed = state_completed s + 1,
              avg_latency_ms = fl_round2 (arith cfg)
                (running_average (arith cfg) (map latency_ms (results s @ [outcome_of c]))),
              errors = length (filter is_http_failure (results s @ [outcome_of c])),
              total = total_requests cfg \<rparr>]"
  using assms
  by (auto simp: record_outcome_def report_progress_def outcome_of_def Let_def split: if_splits)

lemma step_response_plain:
  assumes "\<not> progress_callback cfg" "step cfg (Response c) s = Some s'"
  shows "results s' = results s @ [outcome_of c]"
    and "state_completed s' = state_completed s + 1"
    and "timeseries s' = timeseries s" and "delivered s' = delivered s"
  using assms
  by (auto simp: record_outcome_def outcome_of_def Let_def split: if_splits)

lemma step_other:
  assumes "step cfg a s = Some s'" "\<forall>c. a \<noteq> Response c"
  shows "results s' = results s" "state_completed s' = state_completed s"
        "timeseries s' = timeseries s" "delivered s' = delivered s"
  using assms by (cases a; auto split: if_splits)+


lemma step_spaced:
  assumes "successively (\<lambda>a b. timestamp a + 1 / 2 \<le> timestamp b) (timeseries s)"
      and "step cfg a s = Some s'"
  shows "successively (\<lambda>a b. timestamp a + 1 / 2 \<le> timestamp b) (timeseries s')"
proof (cases "\<exists>c. a = Response c")
  case False
  then show ?thesis using assms step_other(3)[OF assms(2)] by simp
next
  case True
  then obtain c where a: "a = Response c" by blast
  show ?thesis
  proof (cases "progress_callback cfg")
    case False
    then show ?thesis using assms step_response_plain(3)[of cfg c s s'] a by simp
  next
    case True
    note ts = step_response_callback(3)[OF True assms(2)[unfolded a]]
    show ?thesis unfolding ts using assms(1)
      by (auto simp: successively_append_iff)
  qed
qed

lemma run_load_test_returns:
  assumes a: "run_load_test cfg sched t = Some (Inr r)"
  shows "\<exists>s. exec cfg sched (init_state cfg) = Some s \<and> all_done s \<and> raised s = None
           \<and> result_timeseries r = timeseries s \<and> metrics (results s) t = Inr (result_summary r)"
proof -
  have c: "\<not> concurrency cfg < 0" using a by (auto simp: run_load_test_def)
  obtain s where e: "exec cfg sched (init_state cfg) = Some s"
    using a c by (cases "exec cfg sched (init_state cfg)") (simp_all add: run_load_test_def)
  have rz: "raised s = None"
    using a c e by (cases "raised s") (simp_all add: run_load_test_def)
  have ad: "all_done s"
    using a c e rz by (simp add: run_load_test_def split: if_splits)
  obtain m where m: "metrics (results s) t = Inr m" by (simp add: metrics_returns)
  have "r = \<lparr> result_summary = m, result_timeseries = timeseries s \<rparr>"
    using a c e rz ad m by (simp add: run_load_test_def)
  then have "result_timeseries r = timeseries s" "result_summary r = m" by simp_all
  with e ad rz m show ?thesis by simp
qed

lemma exec_spaced:
  assumes "exec cfg sched (init_state cfg) = Some s"
  shows "successively (\<lambda>a b. timestamp a + 1 / 2 \<le> timestamp b) (timeseries s)"
  by (rule exec_invariant[where P = "\<lambda>s. successively (\<lambda>a b. timestamp a + 1 / 2 \<le> timestamp b) (timeseries s)",
        OF step_spaced _ assms]) (simp_all add: init_fields)

lemma demo_final:
  obtains s where "exec demo_config demo_schedule (init_state demo_config) = Some s"
    and "all_done s" and "raised s = None"
    and "map timestamp (timeseries s) = [100, 110]"
    and "map completed (timeseries s) = [1, 3]"
proof -
  have "\<exists>s. exec demo_config demo_schedule (init_state demo_config) = Some s \<and> all_done s
       \<and> raised s = None
       \<and> map timestamp (timeseries s) = [100, 110]
       \<and> map completed (timeseries s) = [1, 3]"
    by (simp add: demo_config_def demo_schedule_def init_state_def record_outcome_def
        report_progress_def all_done_def Let_def)
  then show thesis by (elim exE conjE) (rule that)
qed

text \<open>
  Claim C7. In every state of a run, and so in every returned timeseries, each point is
  at least 0.5 s later than the point before it.
\<close>

theorem timeseries_points_half_second_apart:
  "(exec cfg sched (init_state cfg) = Some s \<longrightarrow>
      (\<forall>i. Suc i < length (timeseries s) \<longrightarrow>
           timestamp (timeseries s ! i) + 1 / 2 \<le> timestamp (timeseries s ! Suc i)))
   \<and> (run_load_test cfg sched t = Some (Inr r) \<longrightarrow>
      (\<forall>i. Suc i < length (result_timeseries r) \<longrightarrow>
           timestamp (result_timeseries r ! i) + 1 / 2 \<le> timestamp (result_timeseries r ! Suc i)))"
proof (intro conjI impI allI)
  fix i
  assume e: "exec cfg sched (init_state cfg) = Some s" and i: "Suc i < length (timeseries s)"
  from successively_nth[OF exec_spaced[OF e] i]
  show "timestamp (timeseries s ! i) + 1 / 2 \<le> timestamp (timeseries s ! Suc i)" .
next
  fix i
  assume run: "run_load_test cfg sched t = Some (Inr r)"
     and i: "Suc i < length (result_timeseries r)"
  from run_load_test_returns[OF run] obtain s' where e: "exec cfg sched (init_state cfg) = Some s'"
    and r: "result_timeseries r = timeseries s'"
    by blast
  from successively_nth[OF exec_spaced[OF e]] i
  show "timestamp (result_timeseries r ! i) + 1 / 2 \<le> timestamp (result_timeseries r ! Suc i)"
    unfolding r by blast
qed


theorem timeseries_points_half_second_apart_witness:
  "\<exists>s r. exec demo_config demo_schedule (init_state demo_config) = Some s
       \<and> run_load_test demo_config demo_schedule 10 = Some (Inr r)
       \<and> map timestamp (timeseries s) = [100, 110]
       \<and> map timestamp (result_timeseries r) = [100, 110]
       \<and> timestamp (timeseries s ! 0) + 1 / 2 \<le> timestamp (timeseries s ! Suc 0)
       \<and> timestamp (result_timeseries r ! 0) + 1 / 2 \<le> timestamp (result_timeseries r ! Suc 0)"
proof -
  from demo_final obtain s where
    s: "exec demo_config demo_schedule (init_state demo_config) = Some s" "all_done s"
       "raised s = None" "map timestamp (timeseries s) = [100, 110]" .
  have c: "\<not> concurrency demo_config < 0" by (simp add: demo_config_def)
  obtain m where m: "metrics (results s) 10 = Inr m" by (simp add: metrics_returns)
  define r where "r = \<lparr> result_summary = m, result_timeseries = timeseries s \<rparr>"
  have run: "run_load_test demo_config demo_schedule 10 = Some (Inr r)"
    using c s(1-3) m by (simp add: run_load_test_def r_def)
  have rt: "result_timeseries r = timeseries s" by (simp add: r_def)
  have "length (map timestamp (timeseries s)) = 2" unfolding s(4) by simp
  then have l: "Suc 0 < length (timeseries s)" "Suc 0 < length (result_timeseries r)"
    unfolding rt by simp_all
  from timeseries_points_half_second_apart [of demo_config demo_schedule s 10 r] s(1) run l
  have "timestamp (timeseries s ! 0) + 1 / 2 \<le> timestamp (timeseries s ! Suc 0)"
       "timestamp (result_timeseries r ! 0) + 1 / 2 \<le> timestamp (result_timeseries r ! Suc 0)"
    by blast+
  with s run rt show ?thesis by auto
qed


subsection \<open>Sampling and progress events\<close>

lemma step_first_point:
  assumes "progress_callback cfg"
      and "state_completed s = int (length (results s))
           \<and> (results s = [] \<longrightarrow> timeseries s = [])
           \<and> (results s \<noteq> [] \<longrightarrow> timeseries s \<noteq> [] \<and> completed (hd (timeseries s)) = 1
                 \<and> avg_latency_ms (hd (timeseries s)) = fl_round2 (arith cfg) (running_average (arith cfg) [latency_ms (hd (results s))]))"
      and "step cfg a s = Some s'"
  shows "state_completed s' = int (length (results s'))
           \<and> (results s' = [] \<longrightarrow> timeseries s' = [])
           \<and> (results s' \<noteq> [] \<longrightarrow> timeseries s' \<noteq> [] \<and> completed (hd (timeseries s')) = 1
                 \<and> avg_latency_ms (hd (timeseries s')) = fl_round2 (arith cfg) (running_average (arith cfg) [latency_ms (hd (results s'))]))"
proof (cases "\<exists>c. a = Response c")
  case False
  then show ?thesis using assms(2) step_other[OF assms(3)] by simp
next
  case True
  then obtain c where a: "a = Response c" by blast
  note r = step_response_callback[OF assms(1) assms(3)[unfolded a]]
  show ?thesis
  proof (cases "results s = []")
    case True
    then show ?thesis using assms(2) unfolding r by simp
  next
    case False
    then show ?thesis using assms(2) unfolding r by auto
  qed
qed

lemma step_no_callback:
  assumes "\<not> progress_callback cfg"
      and "timeseries s = [] \<and> delivered s = [] \<and> in_callback s = 0"
      and "step cfg a s = Some s'"
  shows "timeseries s' = [] \<and> delivered s' = [] \<and> in_callback s' = 0"
  using assms by (cases a) (auto simp: record_outcome_def Let_def split: if_splits)


lemma step_events:
  assumes cb: "progress_callback cfg"
      and inv: "state_completed s = int (length (results s)) \<and> length (delivered s) = length (results s)
           \<and> (\<forall>i < length (delivered s).
                  completed (delivered s ! i) = int (Suc i)
                \<and> total (delivered s ! i) = total_requests cfg
                \<and> avg_latency_ms (delivered s ! i)
                    = fl_round2 (arith cfg) (running_average (arith cfg) (map latency_ms (take (Suc i) (results s))))
                \<and> errors (delivered s ! i) = length (filter is_http_failure (take (Suc i) (results s))))"
      and st: "step cfg a s = Some s'"
  shows "state_completed s' = int (length (results s')) \<and> length (delivered s') = length (results s')
           \<and> (\<forall>i < length (delivered s').
                  completed (delivered s' ! i) = int (Suc i)
                \<and> total (delivered s' ! i) = total_requests cfg
                \<and> avg_latency_ms (delivered s' ! i)
                    = fl_round2 (arith cfg) (running_average (arith cfg) (map latency_ms (take (Suc i) (results s'))))
                \<and> errors (delivered s' ! i) = length (filter is_http_failure (take (Suc i) (results s'))))"
proof (cases "\<exists>c. a = Response c")
  case False
  then show ?thesis using inv step_other[OF st] by simp
next
  case True
  then obtain c where a: "a = Response c" by blast
  note r = step_response_callback[OF cb st[unfolded a]]
  have len: "length (delivered s) = length (results s)" using inv by simp
  have k: "state_completed s = int (length (results s))" using inv by simp
  show ?thesis
  proof (intro conjI allI impI)
    show "state_completed s' = int (length (results s'))" unfolding r using k by simp
    show "length (delivered s') = length (results s')" unfolding r using len by simp
  next
    fix i assume i: "i < length (delivered s')"
    then have "i < length (delivered s) \<or> i = length (delivered s)" unfolding r by auto
    then have "completed (delivered s' ! i) = int (Suc i)
                \<and> total (delivered s' ! i) = total_requests cfg
                \<and> avg_latency_ms (delivered s' ! i)
                    = fl_round2 (arith cfg) (running_average (arith cfg) (map latency_ms (take (Suc i) (results s'))))
                \<and> errors (delivered s' ! i) = length (filter is_http_failure (take (Suc i) (results s')))"
    proof
      assume o: "i < length (delivered s)"
      then have t: "take (Suc i) (results s') = take (Suc i) (results s)"
        unfolding r using len by simp
      have n: "delivered s' ! i = delivered s ! i" unfolding r using o by (simp add: nth_append)
      show ?thesis unfolding t n using inv o by blast
    next
      assume o: "i = length (delivered s)"
      then have t: "take (Suc i) (results s') = results s @ [outcome_of c]"
        unfolding r using len by simp
      have n: "delivered s' ! i = \<lparr> timestamp = sent_at c, completed = state_completed s + 1,
              avg_latency_ms = fl_round2 (arith cfg)
                (running_average (arith cfg) (map latency_ms (results s @ [outcome_of c]))),
              errors = length (filter is_http_failure (results s @ [outcome_of c])),
              total = total_requests cfg \<rparr>"
        unfolding r o by simp
      show ?thesis unfolding t n using k len o by simp
    qed
    then show "completed (delivered s' ! i) = int (Suc i)"
      "total (delivered s' ! i) = total_requests cfg"
      "avg_latency_ms (delivered s' ! i)
                    = fl_round2 (arith cfg) (running_average (arith cfg) (map latency_ms (take (Suc i) (results s'))))"
      "errors (delivered s' ! i) = length (filter is_http_failure (take (Suc i) (results s')))"
      by blast+
  qed
qed


lemma is_http_failure_iff: "is_http_failure = (\<lambda>r. \<exists>c. status_code r = Some c \<and> 400 \<le> c)"
  by (auto simp: is_http_failure_def fun_eq_iff split: option.split)



lemma exec_first_point:
  assumes "progress_callback cfg" "exec cfg sched (init_state cfg) = Some s"
  shows "state_completed s = int (length (results s))
           \<and> (results s = [] \<longrightarrow> timeseries s = [])
           \<and> (results s \<noteq> [] \<longrightarrow> timeseries s \<noteq> [] \<and> completed (hd (timeseries s)) = 1
                 \<and> avg_latency_ms (hd (timeseries s)) = fl_round2 (arith cfg) (running_average (arith cfg) [latency_ms (hd (results s))]))"
  by (rule exec_invariant[where P = "\<lambda>s. state_completed s = int (length (results s))
           \<and> (results s = [] \<longrightarrow> timeseries s = [])
           \<and> (results s \<noteq> [] \<longrightarrow> timeseries s \<noteq> [] \<and> completed (hd (timeseries s)) = 1
                 \<and> avg_latency_ms (hd (timeseries s)) = fl_round2 (arith cfg) (running_average (arith cfg) [latency_ms (hd (results s))]))",
        OF step_first_point[OF assms(1)] _ assms(2)]) (simp_all add: init_fields)

lemma exec_no_callback:
  assumes "\<not> progress_callback cfg" "exec cfg sched (init_state cfg) = Some s"
  shows "timeseries s = [] \<and> delivered s = [] \<and> in_callback s = 0"
  by (rule exec_invariant[where P = "\<lambda>s. timeseries s = [] \<and> delivered s = [] \<and> in_callback s = 0",
        OF step_no_callback[OF assms(1)] _ assms(2)]) (simp_all add: init_fields)

lemma exec_events:
  assumes "progress_callback cfg" "exec cfg sched (init_state cfg) = Some s"
  shows "state_completed s = int (length (results s)) \<and> length (delivered s) = length (results s)
           \<and> (\<forall>i < length (delivered s).
                  completed (delivered s ! i) = int (Suc i)
                \<and> total (delivered s ! i) = total_requests cfg
                \<and> avg_latency_ms (delivered s ! i)
                    = fl_round2 (arith cfg) (running_average (arith cfg) (map latency_ms (take (Suc i) (results s))))
                \<and> errors (delivered s ! i) = length (filter is_http_failure (take (Suc i) (results s))))"
  by (rule exec_invariant[where P = "\<lambda>s. state_completed s = int (length (results s)) \<and> length (delivered s) = length (results s)
           \<and> (\<forall>i < length (delivered s).
                  completed (delivered s ! i) = int (Suc i)
                \<and> total (delivered s ! i) = total_requests cfg
                \<and> avg_latency_ms (delivered s ! i)
                    = fl_round2 (arith cfg) (running_average (arith cfg) (map latency_ms (take (Suc i) (results s))))
                \<and> errors (delivered s ! i) = length (filter is_http_failure (take (Suc i) (results s))))",
        OF step_events[OF assms(1)] _ assms(2)]) (simp_all add: init_fields)


lemma after_raise:
  obtains s s' where "exec demo_config failing_schedule (init_state demo_config) = Some s"
    and "raised s = Some CallbackError"
    and "results s \<noteq> []" and "map timestamp (timeseries s) = [100]"
    and "step demo_config (demo_schedule ! 5) s = Some s'"
    and "demo_schedule ! 5 = Response \<lparr> reply = Status 500, elapsed_ms = 7, now = 1002 / 10, sent_at = 1002 / 10 \<rparr>"
proof -
  have "\<exists>s s'. exec demo_config failing_schedule (init_state demo_config) = Some s
      \<and> raised s = Some CallbackError
      \<and> results s \<noteq> [] \<and> map timestamp (timeseries s) = [100]
      \<and> step demo_config (demo_schedule ! 5) s = Some s'
      \<and> demo_schedule ! 5 = Response \<lparr> reply = Status 500, elapsed_ms = 7, now = 1002 / 10, sent_at = 1002 / 10 \<rparr>"
    by (simp add: demo_config_def demo_schedule_def failing_schedule_def init_state_def
        record_outcome_def report_progress_def Let_def eval_nat_numeral)
  then show thesis by (elim exE conjE) (rule that)
qed

lemma quiet_final:
  obtains q where "exec quiet_config quiet_schedule (init_state quiet_config) = Some q"
    and "results q \<noteq> []"
proof -
  have "\<exists>q. exec quiet_config quiet_schedule (init_state quiet_config) = Some q \<and> results q \<noteq> []"
    by (simp add: quiet_config_def quiet_schedule_def init_state_def record_outcome_def Let_def)
  then show thesis by (elim exE conjE) (rule that)
qed

lemma rounded_average_single:
  "fl_round2 double_arith (running_average double_arith [395 / 32])
     = 3473401212609495 / 281474976710656"
  by code_simp

lemma rounded_average_five:
  "fl_round2 double_arith (running_average double_arith [12, 25 / 2, 47 / 4, 49 / 4, 95 / 8])
     = 1698701484448809 / 140737488355328"
  by code_simp

lemma averaging_outcomes:
  obtains s where "exec averaging_config averaging_schedule (init_state averaging_config) = Some s"
    and "map latency_ms (results s) = [12, 25 / 2, 47 / 4, 49 / 4, 95 / 8]"
proof -
  have "\<exists>s. exec averaging_config averaging_schedule (init_state averaging_config) = Some s
       \<and> map latency_ms (results s) = [12, 25 / 2, 47 / 4, 49 / 4, 95 / 8]"
    by (simp add: averaging_config_def averaging_schedule_def init_state_def record_outcome_def
        report_progress_def outcome_of_def Let_def)
  then show thesis by (elim exE conjE) (rule that)
qed

text \<open>
  Claim C6, as the code has it. The sampler is part of the body of
  \<^verbatim>\<open>if progress_callback is not None\<close>. With a callback, every completion, also one
  after an invocation has raised, applies the rule (append iff the buffer is empty or
  at least 0.5 s have passed since the last point), so once a request has completed
  the timeseries starts with the point of the first completion. Without a callback the
  sampler never runs and the timeseries stays empty.
\<close>

theorem sampler_runs_only_with_callback:
  "exec cfg sched (init_state cfg) = Some s \<Longrightarrow>
     (progress_callback cfg \<longrightarrow>
        (results s \<noteq> [] \<longrightarrow>
           timeseries s \<noteq> [] \<and> completed (hd (timeseries s)) = 1
           \<and> avg_latency_ms (hd (timeseries s)) = fl_round2 (arith cfg) (running_average (arith cfg) [latency_ms (hd (results s))]))
      \<and> (\<forall>c s'. step cfg (Response c) s = Some s' \<longrightarrow>
            timeseries s' =
              (if timeseries s = [] \<or> 1 / 2 \<le> now c - timestamp (last (timeseries s))
               then timeseries s @
                      [\<lparr> timestamp = now c, completed = int (length (results s')),
                         avg_latency_ms = fl_round2 (arith cfg)
                           (running_average (arith cfg) (map latency_ms (results s'))),
                         errors = length (filter (\<lambda>r. \<exists>k. status_code r = Some k \<and> 400 \<le> k)
                                            (results s')) \<rparr>]
               else timeseries s)))
   \<and> (\<not> progress_callback cfg \<longrightarrow> timeseries s = [])"
proof (intro conjI impI allI)
  assume e: "exec cfg sched (init_state cfg) = Some s" and cb: "progress_callback cfg"
  { assume "results s \<noteq> []"
    with exec_first_point[OF cb e]
    show "timeseries s \<noteq> []" "completed (hd (timeseries s)) = 1"
      "avg_latency_ms (hd (timeseries s)) = fl_round2 (arith cfg) (running_average (arith cfg) [latency_ms (hd (results s))])"
      by simp_all }
  fix c s' assume st: "step cfg (Response c) s = Some s'"
  have k: "state_completed s = int (length (results s))" using exec_first_point[OF cb e] by simp
  note r = step_response_callback[OF cb st]
  show "timeseries s' =
              (if timeseries s = [] \<or> 1 / 2 \<le> now c - timestamp (last (timeseries s))
               then timeseries s @
                      [\<lparr> timestamp = now c, completed = int (length (results s')),
                         avg_latency_ms = fl_round2 (arith cfg)
                           (running_average (arith cfg) (map latency_ms (results s'))),
                         errors = length (filter (\<lambda>r. \<exists>k. status_code r = Some k \<and> 400 \<le> k)
                                            (results s')) \<rparr>]
               else timeseries s)"
    unfolding r(3) r(1) is_http_failure_iff[symmetric] k by simp
next
  assume "exec cfg sched (init_state cfg) = Some s" "\<not> progress_callback cfg"
  then show "timeseries s = []" using exec_no_callback by blast
qed

theorem sampler_runs_only_with_callback_witness:
  "\<exists>s s' q. exec demo_config failing_schedule (init_state demo_config) = Some s
     \<and> raised s = Some CallbackError
     \<and> progress_callback demo_config \<and> results s \<noteq> []
     \<and> step demo_config (demo_schedule ! 5) s = Some s'
     \<and> completed (hd (timeseries s)) = 1 \<and> timeseries s' = timeseries s
     \<and> exec quiet_config quiet_schedule (init_state quiet_config) = Some q
     \<and> \<not> progress_callback quiet_config \<and> results q \<noteq> [] \<and> timeseries q = []"
proof -
  from after_raise obtain s s' where
    s: "exec demo_config failing_schedule (init_state demo_config) = Some s"
       "results s \<noteq> []" "map timestamp (timeseries s) = [100]"
       "step demo_config (demo_schedule ! 5) s = Some s'"
       "demo_schedule ! 5 = Response \<lparr> reply = Status 500, elapsed_ms = 7, now = 1002 / 10, sent_at = 1002 / 10 \<rparr>"
    and rs: "raised s = Some CallbackError" .
  from quiet_final obtain q where
    q: "exec quiet_config quiet_schedule (init_state quiet_config) = Some q" "results q \<noteq> []" .
  have cb: "progress_callback demo_config" by (simp add: demo_config_def)
  have ncb: "\<not> progress_callback quiet_config" by (simp add: quiet_config_def)
  have ne: "timeseries s \<noteq> []" using s(3) by auto
  have "timestamp (last (timeseries s)) = last (map timestamp (timeseries s))"
    using ne by (simp add: last_map)
  then have la: "timestamp (last (timeseries s)) = 100" unfolding s(3) by simp
  note t = sampler_runs_only_with_callback [OF s(1)]
  from t cb s(2) have h: "completed (hd (timeseries s)) = 1" by blast
  from t cb s(4)[unfolded s(5)] have
    "timeseries s' =
       (if timeseries s = [] \<or> 1 / 2 \<le> now \<lparr> reply = Status 500, elapsed_ms = 7, now = 1002 / 10, sent_at = 1002 / 10 \<rparr>
                                        - timestamp (last (timeseries s))
        then timeseries s @
               [\<lparr> timestamp = now \<lparr> reply = Status 500, elapsed_ms = 7, now = 1002 / 10, sent_at = 1002 / 10 \<rparr>,
                  completed = int (length (results s')),
                  avg_latency_ms = fl_round2 (arith demo_config)
                           (running_average (arith demo_config) (map latency_ms (results s'))),
                  errors = length (filter (\<lambda>r. \<exists>k. status_code r = Some k \<and> 400 \<le> k) (results s')) \<rparr>]
        else timeseries s)"
    by blast
  then have same: "timeseries s' = timeseries s" using ne la by simp
  from sampler_runs_only_with_callback [OF q(1)] ncb have e: "timeseries q = []" by blast
  show ?thesis
    by (intro exI[of _ s] exI[of _ s'] exI[of _ q] conjI)
       (rule s(1) rs cb s(2) s(4) h same q(1) ncb q(2) e)+
qed

text \<open>
  Claim C6 as stated (the sampler runs whether or not a callback was supplied) fails: a
  run without a callback completes its request and returns an empty timeseries.
\<close>

theorem sampler_skipped_without_callback_counterexample:
  "progress_callback quiet_config = False
   \<and> map_option state_completed (exec quiet_config quiet_schedule (init_state quiet_config)) = Some 1
   \<and> map_option all_done (exec quiet_config quiet_schedule (init_state quiet_config)) = Some True
   \<and> map_option timeseries (exec quiet_config quiet_schedule (init_state quiet_config)) = Some []
   \<and> map_option (map_sum id result_timeseries) (run_load_test quiet_config quiet_schedule 1)
        = Some (Inr [])"
  by (simp add: quiet_config_def quiet_schedule_def init_state_def record_outcome_def
        all_done_def Let_def run_load_test_def metrics_returns)

text \<open>
  Claim C8, as the code has it. With a callback there is exactly one event per completed
  request, also after an invocation has raised, and the \<open>i\<close>-th carries:
  \<open>completed = i\<close>, the number of outcomes so far; \<open>total = total_requests\<close>;
  \<^verbatim>\<open>round(avg, 2)\<close> of the float average \<^verbatim>\<open>sum / len\<close> of the latencies so far; and the
  number of outcomes so far with a status of at least 400. Without a callback no event
  is produced.
\<close>

theorem progress_event_contents:
  "exec cfg sched (init_state cfg) = Some s \<Longrightarrow>
     (progress_callback cfg \<longrightarrow>
        length (delivered s) = length (results s)
      \<and> (\<forall>i < length (delivered s).
            completed (delivered s ! i) = int (Suc i)
          \<and> total (delivered s ! i) = total_requests cfg
          \<and> avg_latency_ms (delivered s ! i)
              = fl_round2 (arith cfg) (running_average (arith cfg) (map latency_ms (take (Suc i) (results s))))
          \<and> errors (delivered s ! i)
              = length (filter (\<lambda>r. \<exists>k. status_code r = Some k \<and> 400 \<le> k)
                               (take (Suc i) (results s)))))
   \<and> (\<not> progress_callback cfg \<longrightarrow> delivered s = [])"
proof (intro conjI impI)
  assume e: "exec cfg sched (init_state cfg) = Some s" and cb: "progress_callback cfg"
  from exec_events[OF cb e] show "length (delivered s) = length (results s)" by simp
  from exec_events[OF cb e]
  show "\<forall>i < length (delivered s).
            completed (delivered s ! i) = int (Suc i)
          \<and> total (delivered s ! i) = total_requests cfg
          \<and> avg_latency_ms (delivered s ! i)
              = fl_round2 (arith cfg) (running_average (arith cfg) (map latency_ms (take (Suc i) (results s))))
          \<and> errors (delivered s ! i)
              = length (filter (\<lambda>r. \<exists>k. status_code r = Some k \<and> 400 \<le> k)
                               (take (Suc i) (results s)))"
    unfolding is_http_failure_iff[symmetric] by simp
next
  assume "exec cfg sched (init_state cfg) = Some s" "\<not> progress_callback cfg"
  then show "delivered s = []" using exec_no_callback by blast
qed


theorem progress_event_contents_witness:
  "\<exists>s. exec averaging_config averaging_schedule (init_state averaging_config) = Some s
     \<and> progress_callback averaging_config
     \<and> length (delivered s) = 5 \<and> 4 < length (delivered s)
     \<and> completed (delivered s ! 4) = 5 \<and> total (delivered s ! 4) = 5
     \<and> avg_latency_ms (delivered s ! 4) = 1698701484448809 / 140737488355328"
proof -
  from averaging_outcomes obtain s where
    s: "exec averaging_config averaging_schedule (init_state averaging_config) = Some s"
       "map latency_ms (results s) = [12, 25 / 2, 47 / 4, 49 / 4, 95 / 8]" .
  have cb: "progress_callback averaging_config" and tot: "total_requests averaging_config = 5"
    and ar: "arith averaging_config = double_arith"
    by (simp_all add: averaging_config_def)
  have "length (map latency_ms (results s)) = 5" unfolding s(2) by simp
  then have lr: "length (results s) = 5" by simp
  note t = progress_event_contents [OF s(1)]
  from t cb lr have ld: "length (delivered s) = 5" by simp
  then have i: "4 < length (delivered s)" by simp
  from t cb i have f:
    "completed (delivered s ! 4) = int (Suc 4)" "total (delivered s ! 4) = total_requests averaging_config"
    "avg_latency_ms (delivered s ! 4)
       = fl_round2 (arith averaging_config)
           (running_average (arith averaging_config) (map latency_ms (take (Suc 4) (results s))))"
    by blast+
  have "take (Suc 4) (results s) = results s" using lr by simp
  then have tk: "map latency_ms (take (Suc 4) (results s)) = [12, 25 / 2, 47 / 4, 49 / 4, 95 / 8]"
    using s(2) by simp
  have avg: "avg_latency_ms (delivered s ! 4) = 1698701484448809 / 140737488355328"
    unfolding f(3) tk ar by (rule rounded_average_five)
  show ?thesis
    by (intro exI[of _ s] conjI) (use s(1) cb ld i f(1,2) tot avg in simp_all)
qed

text \<open>
  Claim C8 as stated (the event carries the running average itself) fails: one request
  of 12.34375 ms is reported with the float 12.34.
\<close>

theorem progress_event_average_rounded_counterexample:
  "map_option (map latency_ms \<circ> results)
      (exec single_config single_schedule (init_state single_config)) = Some [395 / 32]
   \<and> map_option (map avg_latency_ms \<circ> delivered)
      (exec single_config single_schedule (init_state single_config))
        = Some [3473401212609495 / 281474976710656]"
  using rounded_average_single
  by (simp add: single_config_def single_schedule_def init_state_def record_outcome_def
        report_progress_def outcome_of_def Let_def)

subsection \<open>A callback that raises\<close>

lemma step_callbacks_have_outcomes:
  "in_callback s \<le> length (results s) \<Longrightarrow> step cfg a s = Some s' \<Longrightarrow>
   in_callback s' \<le> length (results s')"
  by (cases a) (auto simp: record_outcome_def report_progress_def Let_def split: if_splits)

lemma step_raised_kind:
  "raised s = None \<or> raised s = Some CallbackError \<Longrightarrow> step cfg a s = Some s' \<Longrightarrow>
   raised s' = None \<or> raised s' = Some CallbackError"
  by (cases a) (auto simp: record_outcome_def report_progress_def Let_def split: if_splits)

lemma step_raises:
  assumes "step cfg CallbackRaises s = Some s'" "raised s = None \<or> raised s = Some CallbackError"
  shows "raised s' = Some CallbackError" "results s' = results s" "0 < in_callback s"
  using assms by (auto split: if_splits)

lemma step_keeps_raise:
  "raised s = Some CallbackError \<and> results s \<noteq> [] \<Longrightarrow> step cfg a s = Some s' \<Longrightarrow>
   raised s' = Some CallbackError \<and> results s' \<noteq> []"
  by (cases a) (auto simp: record_outcome_def report_progress_def Let_def split: if_splits)

lemma exec_keeps_raise:
  assumes "raised s0 = Some CallbackError \<and> results s0 \<noteq> []" "exec cfg sched s0 = Some s"
  shows "raised s = Some CallbackError \<and> results s \<noteq> []"
  by (rule exec_invariant[where P = "\<lambda>s. raised s = Some CallbackError \<and> results s \<noteq> []",
        OF step_keeps_raise assms])

lemma exec_raise:
  assumes "exec cfg sched s0 = Some s" "CallbackRaises \<in> set sched"
      and "raised s0 = None \<or> raised s0 = Some CallbackError"
      and "in_callback s0 \<le> length (results s0)"
  shows "raised s = Some CallbackError \<and> results s \<noteq> []"
  using assms
proof (induction sched arbitrary: s0)
  case Nil
  then show ?case by simp
next
  case (Cons a sched)
  then obtain s1 where a: "step cfg a s0 = Some s1" and r: "exec cfg sched s1 = Some s"
    by (auto split: option.splits)
  show ?case
  proof (cases "a = CallbackRaises")
    case True
    note f = step_raises[OF a[unfolded True] Cons.prems(3)]
    have "results s1 \<noteq> []" using f(2,3) Cons.prems(4) by auto
    with f(1) have "raised s1 = Some CallbackError \<and> results s1 \<noteq> []" by simp
    from exec_keeps_raise[OF this r] show ?thesis .
  next
    case False
    then have "CallbackRaises \<in> set sched" using Cons.prems(2) by simp
    from Cons.IH[OF r this step_raised_kind[OF Cons.prems(3) a]
        step_callbacks_have_outcomes[OF Cons.prems(4) a]]
    show ?thesis .
  qed
qed

lemma failing_final:
  obtains s where "exec demo_config failing_schedule (init_state demo_config) = Some s"
proof -
  have "\<exists>s. exec demo_config failing_schedule (init_state demo_config) = Some s"
    by (simp add: demo_config_def failing_schedule_def init_state_def record_outcome_def
        report_progress_def Let_def)
  then show thesis by (elim exE) (rule that)
qed

text \<open>
  Claim C5, as the code has it. Nothing catches an exception of the progress callback:
  when an invocation raises, the exception leaves the worker (whose permit is released
  on the way out), and \<^verbatim>\<open>run_load_test\<close> raises it instead of returning a result,
  whatever the other workers still do. The outcomes recorded until then, that of the
  request whose callback raised included, are in the collection, and the counter agrees
  with it.
\<close>

theorem callback_exception_aborts_run:
  "0 \<le> concurrency cfg \<Longrightarrow> exec cfg sched (init_state cfg) = Some s \<Longrightarrow>
   CallbackRaises \<in> set sched \<Longrightarrow>
     run_load_test cfg sched t = Some (Inl CallbackError)
   \<and> results s \<noteq> [] \<and> state_completed s = int (length (results s))
   \<and> sem_value s + in_request s + in_callback s = nat (concurrency cfg)"
proof -
  assume c: "0 \<le> concurrency cfg" and e: "exec cfg sched (init_state cfg) = Some s"
     and m: "CallbackRaises \<in> set sched"
  have r: "raised s = Some CallbackError" "results s \<noteq> []"
    using exec_raise[OF e m] by (simp_all add: init_fields)
  have run: "run_load_test cfg sched t = Some (Inl CallbackError)"
    using c e r(1) by (simp add: run_load_test_def)
  have k: "state_completed s = int (length (results s))"
    using exec_completed[OF e] by (simp add: init_fields)
  have p: "sem_value s + in_request s + in_callback s = nat (concurrency cfg)"
    using exec_permits[OF e] by (simp add: init_fields)
  from run r(2) k p show ?thesis by simp
qed

theorem callback_exception_aborts_run_witness:
  "\<exists>s. 0 \<le> concurrency demo_config
     \<and> exec demo_config failing_schedule (init_state demo_config) = Some s
     \<and> CallbackRaises \<in> set failing_schedule
     \<and> run_load_test demo_config failing_schedule 1 = Some (Inl CallbackError)
     \<and> results s \<noteq> []"
proof -
  from failing_final obtain s where
    s: "exec demo_config failing_schedule (init_state demo_config) = Some s" .
  have c: "0 \<le> concurrency demo_config" by (simp add: demo_config_def)
  have m: "CallbackRaises \<in> set failing_schedule" by (simp add: failing_schedule_def)
  from callback_exception_aborts_run [OF c s m, of 1] c s m show ?thesis by blast
qed

text \<open>
  Claim C5 as stated (the failure is isolated and a full result is returned) fails: in
  a run of three requests through two permits, the first callback invocation raises;
  the third request is issued on the freed permit, one outcome is recorded, and
  \<^verbatim>\<open>run_load_test\<close> raises the exception.
\<close>

theorem callback_exception_counterexample:
  "CallbackRaises \<in> set failing_schedule
   \<and> total_requests demo_config = 3
   \<and> map_option requests_issued (exec demo_config failing_schedule (init_state demo_config)) = Some 3
   \<and> map_option state_completed (exec demo_config failing_schedule (init_state demo_config)) = Some 1
   \<and> run_load_test demo_config failing_schedule 1 = Some (Inl CallbackError)"
  by (simp add: demo_config_def failing_schedule_def init_state_def record_outcome_def
        report_progress_def Let_def run_load_test_def)

subsection \<open>Configurations the request model would reject\<close>

lemma step_idle:
  "(not_started s = 0 \<or> sem_value s = 0) \<Longrightarrow> in_request s = 0 \<Longrightarrow> in_callback s = 0 \<Longrightarrow>
   step cfg a s = None"
  by (cases a) auto

lemma exec_idle:
  "(not_started s = 0 \<or> sem_value s = 0) \<Longrightarrow> in_request s = 0 \<Longrightarrow> in_callback s = 0 \<Longrightarrow>
   exec cfg sched s = Some s' \<Longrightarrow> sched = [] \<and> s' = s"
  by (cases sched) (simp_all add: step_idle)

lemma step_ignores_target:
  "step (cfg\<lparr>url := u, method := m\<rparr>) a s = step cfg a s"
  by (cases a) (simp_all add: report_progress_def Let_def)

lemma exec_ignores_target:
  "exec (cfg\<lparr>url := u, method := m\<rparr>) sched s = exec cfg sched s"
  by (induction sched arbitrary: s) (simp_all add: step_ignores_target split: option.split)

lemma init_ignores_target:
  "init_state (cfg\<lparr>url := u, method := m\<rparr>) = init_state cfg"
  by (simp add: init_state_def)

text \<open>
  Claim C4, as the code has it. \<^verbatim>\<open>run_load_test\<close> does not validate its arguments
  (only the request model of the REST endpoint does). With \<open>total_requests < 1\<close> or
  \<open>concurrency < 1\<close> no request is ever issued and no outcome recorded; but the call
  raises only for a negative concurrency (ValueError of the semaphore), returns a
  summary of zero requests for \<open>total_requests < 1\<close>, and never returns for
  \<open>concurrency = 0\<close> with requests to send. The method and the URL are not looked at:
  any run with them replaced is the same run.
\<close>

theorem run_load_test_does_not_validate:
  "(total_requests cfg < 1 \<or> concurrency cfg < 1 \<longrightarrow>
      (\<forall>sched s. exec cfg sched (init_state cfg) = Some s \<longrightarrow>
         sched = [] \<and> requests_issued s = 0 \<and> results s = []))
   \<and> (concurrency cfg < 0 \<longrightarrow> run_load_test cfg sched t = Some (Inl ValueError))
   \<and> (0 \<le> concurrency cfg \<and> total_requests cfg < 1 \<longrightarrow>
        (\<exists>m. run_load_test cfg [] t = Some (Inr \<lparr> result_summary = m, result_timeseries = [] \<rparr>)
             \<and> requests_total m = 0))
   \<and> (concurrency cfg = 0 \<and> 1 \<le> total_requests cfg \<longrightarrow> run_load_test cfg sched t = None)
   \<and> exec (cfg\<lparr>url := u, method := m\<rparr>) sched (init_state (cfg\<lparr>url := u, method := m\<rparr>))
        = exec cfg sched (init_state cfg)
   \<and> run_load_test (cfg\<lparr>url := u, method := m\<rparr>) sched t = run_load_test cfg sched t"
proof (intro conjI impI allI)
  fix sched' s
  assume bad: "total_requests cfg < 1 \<or> concurrency cfg < 1"
     and e: "exec cfg sched' (init_state cfg) = Some s"
  have "not_started (init_state cfg) = 0 \<or> sem_value (init_state cfg) = 0"
    using bad by (auto simp: init_fields)
  from exec_idle[OF this _ _ e] have "sched' = [] \<and> s = init_state cfg"
    by (simp add: init_fields)
  then show "sched' = []" "requests_issued s = 0" "results s = []"
    by (simp_all add: init_fields)
next
  assume "concurrency cfg < 0"
  then show "run_load_test cfg sched t = Some (Inl ValueError)" by (simp add: run_load_test_def)
next
  assume a: "0 \<le> concurrency cfg \<and> total_requests cfg < 1"
  obtain m where m: "metrics [] t = Inr m" "requests_total m = 0"
    by (simp add: metrics_returns)
  have "all_done (init_state cfg)" using a by (simp add: all_done_def init_fields)
  then have "run_load_test cfg [] t = Some (Inr \<lparr> result_summary = m, result_timeseries = [] \<rparr>)"
    using a m(1) by (simp add: run_load_test_def init_fields)
  with m(2) show "\<exists>m. run_load_test cfg [] t = Some (Inr \<lparr> result_summary = m, result_timeseries = [] \<rparr>)
             \<and> requests_total m = 0" by blast
next
  assume a: "concurrency cfg = 0 \<and> 1 \<le> total_requests cfg"
  show "run_load_test cfg sched t = None"
  proof (cases "exec cfg sched (init_state cfg)")
    case None
    then show ?thesis using a by (simp add: run_load_test_def)
  next
    case (Some s)
    have "not_started (init_state cfg) = 0 \<or> sem_value (init_state cfg) = 0"
      using a by (simp add: init_fields)
    from exec_idle[OF this _ _ Some] have s: "s = init_state cfg" by (simp add: init_fields)
    have "\<not> all_done s" using a unfolding s by (simp add: all_done_def init_fields)
    moreover have "raised s = None" unfolding s by (simp add: init_fields)
    ultimately show ?thesis using a Some by (simp add: run_load_test_def)
  qed
next
  show "exec (cfg\<lparr>url := u, method := m\<rparr>) sched (init_state (cfg\<lparr>url := u, method := m\<rparr>))
        = exec cfg sched (init_state cfg)"
    by (simp only: exec_ignores_target init_ignores_target)
next
  show "run_load_test (cfg\<lparr>url := u, method := m\<rparr>) sched t = run_load_test cfg sched t"
    unfolding run_load_test_def exec_ignores_target init_ignores_target by simp
qed

theorem run_load_test_does_not_validate_witness:
  "total_requests (quiet_config\<lparr>total_requests := 0\<rparr>) < 1
   \<and> 0 \<le> concurrency (quiet_config\<lparr>total_requests := 0\<rparr>)
   \<and> exec (quiet_config\<lparr>total_requests := 0\<rparr>) [] (init_state (quiet_config\<lparr>total_requests := 0\<rparr>))
        = Some (init_state (quiet_config\<lparr>total_requests := 0\<rparr>))
   \<and> requests_issued (init_state (quiet_config\<lparr>total_requests := 0\<rparr>)) = 0
   \<and> (\<exists>m. run_load_test (quiet_config\<lparr>total_requests := 0\<rparr>) [] 1
              = Some (Inr \<lparr> result_summary = m, result_timeseries = [] \<rparr>)
          \<and> requests_total m = 0)
   \<and> concurrency (quiet_config\<lparr>concurrency := - 1\<rparr>) < 0
   \<and> run_load_test (quiet_config\<lparr>concurrency := - 1\<rparr>) quiet_schedule 1 = Some (Inl ValueError)
   \<and> concurrency (quiet_config\<lparr>concurrency := 0\<rparr>) = 0
   \<and> 1 \<le> total_requests (quiet_config\<lparr>concurrency := 0\<rparr>)
   \<and> run_load_test (quiet_config\<lparr>concurrency := 0\<rparr>) quiet_schedule 1 = None"
proof -
  let ?A = "quiet_config\<lparr>total_requests := 0\<rparr>"
  let ?B = "quiet_config\<lparr>concurrency := - 1\<rparr>"
  let ?C = "quiet_config\<lparr>concurrency := 0\<rparr>"
  have a: "total_requests ?A < 1" "0 \<le> concurrency ?A" by (simp_all add: quiet_config_def)
  have b: "concurrency ?B < 0" by simp
  have c: "concurrency ?C = 0" "1 \<le> total_requests ?C" by (simp_all add: quiet_config_def)
  have e: "exec ?A [] (init_state ?A) = Some (init_state ?A)" by simp
  note ta = run_load_test_does_not_validate [of ?A "[]" 1 "url ?A" "method ?A"]
  note tb = run_load_test_does_not_validate [of ?B quiet_schedule 1 "url ?B" "method ?B"]
  note tc = run_load_test_does_not_validate [of ?C quiet_schedule 1 "url ?C" "method ?C"]
  from ta a(1) e have a1: "requests_issued (init_state ?A) = 0" by blast
  from ta a have a2: "\<exists>m. run_load_test ?A [] 1
              = Some (Inr \<lparr> result_summary = m, result_timeseries = [] \<rparr>)
          \<and> requests_total m = 0" by blast
  from tb b have b1: "run_load_test ?B quiet_schedule 1 = Some (Inl ValueError)" by blast
  from tc c have c1: "run_load_test ?C quiet_schedule 1 = None" by blast
  show ?thesis
    by (intro conjI) (rule a e a1 a2 b b1 c c1)+
qed

text \<open>
  Claim C4 as stated (a configuration that fails validation issues no request) fails: a
  configuration with the method FOO and no URL is dispatched like any other; its
  request is issued, fails, and is recorded, and a result is returned.
\<close>

theorem unvalidated_request_dispatched_counterexample:
  "\<not> load_test_request_valid accept_any_url unchecked_config
   \<and> map_option requests_issued
        (exec unchecked_config unchecked_schedule (init_state unchecked_config)) = Some 1
   \<and> map_option (length \<circ> results)
        (exec unchecked_config unchecked_schedule (init_state unchecked_config)) = Some 1
   \<and> map_option (map_sum id (requests_total \<circ> result_summary))
        (run_load_test unchecked_config unchecked_schedule 1) = Some (Inr 1)"
  by (simp add: load_test_request_valid_def allowed_methods_def unchecked_config_def
        unchecked_schedule_def init_state_def record_outcome_def all_done_def Let_def
        run_load_test_def metrics_returns)

end
